theory Spec2Isabelle
  imports Main
begin

section \<open>Text and bytes\<close>

text \<open>
  The program of \<^verbatim>\<open>app/main.py\<close> moves text between three representations:
  the bytes of an HTTP body or of a TCP stream, Python \<^verbatim>\<open>str\<close> values, and JSON text.
  A byte is a \<^typ>\<open>char\<close> (8 bits), so a byte string is a \<^typ>\<open>string\<close> and can be
  written as a literal. A Python \<^verbatim>\<open>str\<close> is a list of code points: Python counts and
  compares code points, not bytes.

  The functions of the Python standard library that the program calls
  (\<^verbatim>\<open>bytes.decode\<close>, \<^verbatim>\<open>str.encode\<close>, \<^verbatim>\<open>str.strip\<close>, \<^verbatim>\<open>int\<close>,
  \<^verbatim>\<open>urllib.parse.parse_qs\<close>, \<^verbatim>\<open>json.dumps\<close>, \<^verbatim>\<open>json.loads\<close>) are modelled by what
  CPython computes, as total functions with their exceptions as values.

  Where a small input can ask for more than the interpreter gives, the limit decides
  which exception a call raises, and the handlers do not catch every class. These
  limits are parameters of the model:
  the recursion depth that is left when the JSON decoder starts, counted in the
  arrays and objects it may be inside at once;
  the largest number of digits that \<^verbatim>\<open>int\<close> converts
  (\<^verbatim>\<open>sys.get_int_max_str_digits()\<close>, 0 for no limit);
  the largest size that fits an index (\<^verbatim>\<open>sys.maxsize\<close>) and the largest length of a
  \<^verbatim>\<open>bytes\<close> object, which is smaller by the header of the object;
  and whether the interpreter gets the memory for a \<^verbatim>\<open>bytes\<close> object of a given
  length, which matters where the length is a number that the client sends. Memory
  is otherwise outside the model.
\<close>

type_synonym bytes = "char list"
type_synonym pystr = "nat list"

datatype exn =
    ValueError
  | JSONDecodeError
  | RecursionError
  | OverflowError
  | MemoryError
  | IndexError
  | AttributeError
  | UnicodeEncodeError
  | FileNotFoundError
  | OSError

record limits =
  recursion_depth :: nat
  max_str_digits :: nat
  max_size :: nat
  max_bytes :: nat
  can_allocate :: "nat \<Rightarrow> bool"

definition asc :: "string \<Rightarrow> pystr" where
  \<comment> \<open>the \<^verbatim>\<open>str\<close> with the code points of an ASCII literal\<close>
  "asc s = map of_char s"

definition is_scalar :: "nat \<Rightarrow> bool" where
  \<comment> \<open>a Unicode scalar value: a code point that is not a surrogate\<close>
  "is_scalar c \<longleftrightarrow> c < 0xD800 \<or> (0xE000 \<le> c \<and> c < 0x110000)"

definition is_cont :: "char \<Rightarrow> bool" where
  "is_cont b \<longleftrightarrow> 0x80 \<le> (of_char b :: nat) \<and> (of_char b :: nat) < 0xC0"

definition second_ok :: "nat \<Rightarrow> char \<Rightarrow> bool" where
  \<comment> \<open>the ranges of the second byte that exclude overlong forms, surrogates and
      code points above \<^verbatim>\<open>0x10FFFF\<close>\<close>
  "second_ok c b2 \<longleftrightarrow> is_cont b2 \<and>
     (c = 0xE0 \<longrightarrow> 0xA0 \<le> (of_char b2 :: nat)) \<and>
     (c = 0xED \<longrightarrow> (of_char b2 :: nat) < 0xA0) \<and>
     (c = 0xF0 \<longrightarrow> 0x90 \<le> (of_char b2 :: nat)) \<and>
     (c = 0xF4 \<longrightarrow> (of_char b2 :: nat) < 0x90)"

definition low6 :: "char \<Rightarrow> nat" where
  "low6 b = of_char b - 0x80"

text \<open>
  \<^verbatim>\<open>bytes.decode("utf-8", errors="replace")\<close>: every maximal ill-formed part
  becomes one \<^verbatim>\<open>U+FFFD\<close>, and decoding resumes at the byte that broke the sequence.
\<close>

fun utf8_decode :: "bytes \<Rightarrow> pystr" where
  "utf8_decode [] = []"
| "utf8_decode (b # bs) =
    (let c = (of_char b :: nat) in
     if c < 0x80 then c # utf8_decode bs
     else if c < 0xC2 then 0xFFFD # utf8_decode bs
     else if c < 0xE0 then
       (case bs of
          [] \<Rightarrow> [0xFFFD]
        | b2 # r2 \<Rightarrow>
            if is_cont b2 then ((c - 0xC0) * 64 + low6 b2) # utf8_decode r2
            else 0xFFFD # utf8_decode bs)
     else if c < 0xF0 then
       (case bs of
          [] \<Rightarrow> [0xFFFD]
        | b2 # r2 \<Rightarrow>
            if \<not> second_ok c b2 then 0xFFFD # utf8_decode bs
            else (case r2 of
                    [] \<Rightarrow> [0xFFFD]
                  | b3 # r3 \<Rightarrow>
                      if is_cont b3
                      then ((c - 0xE0) * 4096 + low6 b2 * 64 + low6 b3) # utf8_decode r3
                      else 0xFFFD # utf8_decode r2))
     else if c < 0xF5 then
       (case bs of
          [] \<Rightarrow> [0xFFFD]
        | b2 # r2 \<Rightarrow>
            if \<not> second_ok c b2 then 0xFFFD # utf8_decode bs
            else (case r2 of
                    [] \<Rightarrow> [0xFFFD]
                  | b3 # r3 \<Rightarrow>
                      if \<not> is_cont b3 then 0xFFFD # utf8_decode r2
                      else (case r3 of
                              [] \<Rightarrow> [0xFFFD]
                            | b4 # r4 \<Rightarrow>
                                if is_cont b4
                                then ((c - 0xF0) * 262144 + low6 b2 * 4096
                                        + low6 b3 * 64 + low6 b4) # utf8_decode r4
                                else 0xFFFD # utf8_decode r3)))
     else 0xFFFD # utf8_decode bs)"

text \<open>
  \<^verbatim>\<open>str.encode("utf-8")\<close> is strict: a surrogate raises \<^verbatim>\<open>UnicodeEncodeError\<close>,
  here \<^const>\<open>None\<close>.
\<close>

definition encode_cp :: "nat \<Rightarrow> bytes option" where
  "encode_cp c =
    (if c < 0x80 then Some [char_of c]
     else if c < 0x800 then Some [char_of (0xC0 + c div 64), char_of (0x80 + c mod 64)]
     else if c < 0x10000 then
       (if is_scalar c
        then Some [char_of (0xE0 + c div 4096), char_of (0x80 + c div 64 mod 64),
                   char_of (0x80 + c mod 64)]
        else None)
     else if c < 0x110000 then
       Some [char_of (0xF0 + c div 262144), char_of (0x80 + c div 4096 mod 64),
             char_of (0x80 + c div 64 mod 64), char_of (0x80 + c mod 64)]
     else None)"

fun utf8_encode :: "pystr \<Rightarrow> bytes option" where
  "utf8_encode [] = Some []"
| "utf8_encode (c # cs) =
    (case encode_cp c of
       None \<Rightarrow> None
     | Some b \<Rightarrow> (case utf8_encode cs of None \<Rightarrow> None | Some bs \<Rightarrow> Some (b @ bs)))"

text \<open>
  \<^verbatim>\<open>str.strip()\<close> removes the characters for which \<^verbatim>\<open>str.isspace\<close> holds from both
  ends.
\<close>

definition is_space :: "nat \<Rightarrow> bool" where
  "is_space c \<longleftrightarrow>
     (0x09 \<le> c \<and> c \<le> 0x0D) \<or> (0x1C \<le> c \<and> c \<le> 0x20) \<or> c = 0x85 \<or> c = 0xA0 \<or>
     c = 0x1680 \<or> (0x2000 \<le> c \<and> c \<le> 0x200A) \<or> c = 0x2028 \<or> c = 0x2029 \<or>
     c = 0x202F \<or> c = 0x205F \<or> c = 0x3000"

definition lstrip :: "pystr \<Rightarrow> pystr" where
  "lstrip s = dropWhile is_space s"

definition rstrip :: "pystr \<Rightarrow> pystr" where
  "rstrip s = rev (dropWhile is_space (rev s))"

definition strip :: "pystr \<Rightarrow> pystr" where
  "strip s = rstrip (lstrip s)"

lemma lstrip_idem: "lstrip (lstrip s) = lstrip s"
  by (simp add: lstrip_def dropWhile_idem)



section \<open>JSON text\<close>

subsection \<open>\<^verbatim>\<open>json.dumps\<close> of a dictionary of strings\<close>

text \<open>
  \<^verbatim>\<open>json.dumps\<close> is called with its defaults: \<^verbatim>\<open>ensure_ascii=True\<close>, the item
  separator \<^verbatim>\<open>", "\<close> and the key separator \<^verbatim>\<open>": "\<close>. A string is written between
  double quotes; the characters from the space to the tilde stand for themselves, except
  the double quote and the backslash; every other character is escaped, a code point
  above \<^verbatim>\<open>0xFFFF\<close> as a surrogate pair.
\<close>

definition hex_digit :: "nat \<Rightarrow> nat" where
  \<comment> \<open>the lower-case hexadecimal digit of a value below 16\<close>
  "hex_digit d = (if d < 10 then 0x30 + d else 0x57 + d)"

definition hex4 :: "nat \<Rightarrow> pystr" where
  \<comment> \<open>\<^verbatim>\<open>'{0:04x}'.format(n)\<close> for \<open>n\<close> below \<^verbatim>\<open>0x10000\<close>\<close>
  "hex4 n = [hex_digit (n div 4096 mod 16), hex_digit (n div 256 mod 16),
             hex_digit (n div 16 mod 16), hex_digit (n mod 16)]"

definition u_escape :: "nat \<Rightarrow> pystr" where
  "u_escape n = [0x5C, 0x75] @ hex4 n"

definition escape_char :: "nat \<Rightarrow> pystr" where
  "escape_char c =
    (if c = 0x22 then [0x5C, 0x22]
     else if c = 0x5C then [0x5C, 0x5C]
     else if c = 0x0A then [0x5C, 0x6E]
     else if c = 0x0D then [0x5C, 0x72]
     else if c = 0x09 then [0x5C, 0x74]
     else if c = 0x0C then [0x5C, 0x66]
     else if c = 0x08 then [0x5C, 0x62]
     else if 0x20 \<le> c \<and> c \<le> 0x7E then [c]
     else if c < 0x10000 then u_escape c
     else u_escape (0xD800 + (c - 0x10000) div 1024 mod 1024)
            @ u_escape (0xDC00 + (c - 0x10000) mod 1024))"

definition encode_basestring_ascii :: "pystr \<Rightarrow> pystr" where
  "encode_basestring_ascii s = 0x22 # concat (map escape_char s) @ [0x22]"

fun join :: "pystr \<Rightarrow> pystr list \<Rightarrow> pystr" where
  "join sep [] = []"
| "join sep [x] = x"
| "join sep (x # y # ys) = x @ sep @ join sep (y # ys)"

definition dumps_item :: "pystr \<times> pystr \<Rightarrow> pystr" where
  "dumps_item kv = encode_basestring_ascii (fst kv) @ [0x3A, 0x20] @ encode_basestring_ascii (snd kv)"

definition json_dumps :: "(pystr \<times> pystr) list \<Rightarrow> pystr" where
  \<comment> \<open>the dictionary is given by its items, in insertion order\<close>
  "json_dumps d = [0x7B] @ join [0x2C, 0x20] (map dumps_item d) @ [0x7D]"

subsection \<open>\<^verbatim>\<open>json.loads\<close>\<close>

text \<open>
  A decoded JSON document. An integer literal becomes a Python \<^verbatim>\<open>int\<close>; a literal with
  a fraction or an exponent becomes a \<^verbatim>\<open>float\<close>, kept here as the exact decimal
  \<open>m \<times> 10\<^sup>e\<close> that Python rounds. An object becomes a \<^verbatim>\<open>dict\<close>, kept as the list of
  its pairs in the order of the text: a later pair overrides an earlier one with the
  same key.
\<close>

datatype json =
    JNull
  | JBool bool
  | JInt int
  | JFloat int int
  | JNaN
  | JInfinity
  | JNegInfinity
  | JStr pystr
  | JArr "json list"
  | JObj "(pystr \<times> json) list"

definition is_ws :: "nat \<Rightarrow> bool" where
  "is_ws c \<longleftrightarrow> c = 0x20 \<or> c = 0x09 \<or> c = 0x0A \<or> c = 0x0D"

definition skip_ws :: "pystr \<Rightarrow> pystr" where
  "skip_ws s = dropWhile is_ws s"

definition is_digit :: "nat \<Rightarrow> bool" where
  "is_digit c \<longleftrightarrow> 0x30 \<le> c \<and> c \<le> 0x39"

definition hexval :: "nat \<Rightarrow> nat option" where
  "hexval c =
    (if 0x30 \<le> c \<and> c \<le> 0x39 then Some (c - 0x30)
     else if 0x41 \<le> c \<and> c \<le> 0x46 then Some (c - 0x37)
     else if 0x61 \<le> c \<and> c \<le> 0x66 then Some (c - 0x57)
     else None)"

fun decode_uXXXX :: "pystr \<Rightarrow> (nat \<times> pystr) option" where
  "decode_uXXXX (a # b # c # d # r) =
    (case hexval a of None \<Rightarrow> None | Some x \<Rightarrow>
      (case hexval b of None \<Rightarrow> None | Some y \<Rightarrow>
        (case hexval c of None \<Rightarrow> None | Some z \<Rightarrow>
          (case hexval d of None \<Rightarrow> None | Some w \<Rightarrow>
             Some (((x * 16 + y) * 16 + z) * 16 + w, r)))))"
| "decode_uXXXX _ = None"

text \<open>
  The text after a backslash inside a string. A \<^verbatim>\<open>\u\<close> escape of a high surrogate
  that is followed by a \<^verbatim>\<open>\u\<close> escape of a low surrogate is joined with it into one
  code point.
\<close>

fun scan_escape :: "pystr \<Rightarrow> (nat \<times> pystr) option" where
  "scan_escape [] = None"
| "scan_escape (e # r) =
    (if e = 0x75 then
       (case decode_uXXXX r of
          None \<Rightarrow> None
        | Some (uni, r1) \<Rightarrow>
            if 0xD800 \<le> uni \<and> uni \<le> 0xDBFF then
              (case r1 of
                 b # u # r2 \<Rightarrow>
                   if b = 0x5C \<and> u = 0x75 then
                     (case decode_uXXXX r2 of
                        None \<Rightarrow> None
                      | Some (uni2, r3) \<Rightarrow>
                          if 0xDC00 \<le> uni2 \<and> uni2 \<le> 0xDFFF
                          then Some (0x10000 + (uni - 0xD800) * 1024 + (uni2 - 0xDC00), r3)
                          else Some (uni, r1))
                   else Some (uni, r1)
               | _ \<Rightarrow> Some (uni, r1))
            else Some (uni, r1))
     else if e = 0x22 then Some (0x22, r)
     else if e = 0x5C then Some (0x5C, r)
     else if e = 0x2F then Some (0x2F, r)
     else if e = 0x62 then Some (0x08, r)
     else if e = 0x66 then Some (0x0C, r)
     else if e = 0x6E then Some (0x0A, r)
     else if e = 0x72 then Some (0x0D, r)
     else if e = 0x74 then Some (0x09, r)
     else None)"

lemma decode_uXXXX_length: "decode_uXXXX s = Some (u, r) \<Longrightarrow> length s = length r + 4"
  by (cases s rule: decode_uXXXX.cases) (auto split: option.splits)

lemma scan_escape_length: "scan_escape s = Some (c, r) \<Longrightarrow> length r < length s"
  by (cases s) (auto split: option.splits if_splits list.splits dest!: decode_uXXXX_length)

text \<open>
  \<^verbatim>\<open>scanstring\<close>, from the character after the opening quote: the decoded string and
  the text after the closing quote. An unterminated string, a bad escape and a control
  character inside the string are errors.
\<close>

function scanstring :: "pystr \<Rightarrow> (pystr \<times> pystr) option" where
  "scanstring [] = None"
| "scanstring (c # cs) =
    (if c = 0x22 then Some ([], cs)
     else if c = 0x5C then
       (case scan_escape cs of
          None \<Rightarrow> None
        | Some (ch, r) \<Rightarrow>
            (case scanstring r of None \<Rightarrow> None | Some (s, r') \<Rightarrow> Some (ch # s, r')))
     else if c < 0x20 then None
     else (case scanstring cs of None \<Rightarrow> None | Some (s, r') \<Rightarrow> Some (c # s, r')))"
  by pat_completeness auto
termination
  by (relation "measure length") (auto dest: scan_escape_length)


lemma scanstring_length: "scanstring s = Some (x, r) \<Longrightarrow> length r < length s"
proof (induction s arbitrary: x rule: scanstring.induct)
  case 1
  then show ?case by simp
next
  case (2 c cs)
  show ?case
  proof (cases "c = 0x22")
    case True
    with "2.prems" show ?thesis by simp
  next
    case notq: False
    show ?thesis
    proof (cases "c = 0x5C")
      case True
      with notq "2.prems" obtain ch r1 s' where
        e: "scan_escape cs = Some (ch, r1)" and t: "scanstring r1 = Some (s', r)"
        by (auto split: option.splits)
      from "2.IH"(1)[OF notq True e refl t] scan_escape_length[OF e] show ?thesis by simp
    next
      case False
      with notq "2.prems" obtain s' where
        c: "\<not> c < 0x20" and t: "scanstring cs = Some (s', r)"
        by (auto split: option.splits if_splits)
      from "2.IH"(2)[OF notq False c t] show ?thesis by simp
    qed
  qed
qed

text \<open>
  A number: \<^verbatim>\<open>(-?(?:0|[1-9][0-9]*))(\.[0-9]+)?([eE][-+]?[0-9]+)?\<close>, the longest match
  at the start of the text. Without fraction and exponent it is an \<^verbatim>\<open>int\<close>, which
  the scanner makes with \<^verbatim>\<open>int\<close>: a literal with more digits than the limit raises
  \<^verbatim>\<open>ValueError\<close>. A \<^verbatim>\<open>float\<close> has no such limit.
\<close>

definition int_too_long :: "limits \<Rightarrow> nat \<Rightarrow> bool" where
  \<comment> \<open>\<^verbatim>\<open>int\<close> refuses this number of digits; up to 640 digits are never refused\<close>
  "int_too_long lim n \<longleftrightarrow> 640 < n \<and> 0 < max_str_digits lim \<and> max_str_digits lim < n"

definition digits_val :: "pystr \<Rightarrow> nat" where
  "digits_val ds = foldl (\<lambda>a c. a * 10 + (c - 0x30)) 0 ds"

definition number_int :: "pystr \<Rightarrow> (pystr \<times> pystr) option" where
  "number_int s =
    (case s of
       [] \<Rightarrow> None
     | d # r \<Rightarrow>
         if d = 0x30 then Some ([d], r)
         else if is_digit d then Some (d # takeWhile is_digit r, dropWhile is_digit r)
         else None)"

definition number_frac :: "pystr \<Rightarrow> pystr \<times> pystr" where
  "number_frac s =
    (case s of
       p # d # r \<Rightarrow>
         if p = 0x2E \<and> is_digit d
         then (takeWhile is_digit (d # r), dropWhile is_digit (d # r))
         else ([], s)
     | _ \<Rightarrow> ([], s))"

definition number_exp :: "pystr \<Rightarrow> int option \<times> pystr" where
  "number_exp s =
    (case s of
       [] \<Rightarrow> (None, s)
     | e # r \<Rightarrow>
         if e = 0x65 \<or> e = 0x45 then
           (let neg = (case r of [] \<Rightarrow> False | g # _ \<Rightarrow> g = 0x2D);
                r1 = (case r of [] \<Rightarrow> r | g # r' \<Rightarrow> if g = 0x2D \<or> g = 0x2B then r' else r)
            in case r1 of
                 [] \<Rightarrow> (None, s)
               | d # _ \<Rightarrow>
                   if is_digit d
                   then (Some ((if neg then - 1 else 1) * int (digits_val (takeWhile is_digit r1))),
                         dropWhile is_digit r1)
                   else (None, s))
         else (None, s))"

definition match_number :: "limits \<Rightarrow> pystr \<Rightarrow> (exn + json \<times> pystr) option" where
  \<comment> \<open>\<^const>\<open>None\<close>: the text does not start with a number\<close>
  "match_number lim s =
    (let neg = (case s of [] \<Rightarrow> False | c # _ \<Rightarrow> c = 0x2D);
         s1 = (if neg then tl s else s)
     in case number_int s1 of
          None \<Rightarrow> None
        | Some (ip, s2) \<Rightarrow>
            (let fp = fst (number_frac s2);
                 s3 = snd (number_frac s2);
                 ex = fst (number_exp s3);
                 s4 = snd (number_exp s3);
                 sgn = (if neg then - 1 else 1)
             in if fp = [] \<and> ex = None then
                  (if int_too_long lim (length ip) then Some (Inl ValueError)
                   else Some (Inr (JInt (sgn * int (digits_val ip)), s4)))
                else Some (Inr (JFloat (sgn * int (digits_val (ip @ fp)))
                                  ((case ex of None \<Rightarrow> 0 | Some e \<Rightarrow> e) - int (length fp)), s4))))"

fun strip_prefix :: "pystr \<Rightarrow> pystr \<Rightarrow> pystr option" where
  "strip_prefix [] s = Some s"
| "strip_prefix (p # ps) [] = None"
| "strip_prefix (p # ps) (c # cs) = (if p = c then strip_prefix ps cs else None)"

text \<open>
  The values that are neither string, object nor array, in the order in which the
  scanner tries them. When none starts the text, the decoder raises
  \<^verbatim>\<open>json.JSONDecodeError\<close>.
\<close>

definition scan_atom :: "limits \<Rightarrow> pystr \<Rightarrow> exn + json \<times> pystr" where
  "scan_atom lim s =
    (case strip_prefix (asc ''null'') s of Some r \<Rightarrow> Inr (JNull, r) | None \<Rightarrow>
    (case strip_prefix (asc ''true'') s of Some r \<Rightarrow> Inr (JBool True, r) | None \<Rightarrow>
    (case strip_prefix (asc ''false'') s of Some r \<Rightarrow> Inr (JBool False, r) | None \<Rightarrow>
    (case match_number lim s of Some vr \<Rightarrow> vr | None \<Rightarrow>
    (case strip_prefix (asc ''NaN'') s of Some r \<Rightarrow> Inr (JNaN, r) | None \<Rightarrow>
    (case strip_prefix (asc ''Infinity'') s of Some r \<Rightarrow> Inr (JInfinity, r) | None \<Rightarrow>
    (case strip_prefix (asc ''-Infinity'') s of Some r \<Rightarrow> Inr (JNegInfinity, r) | None \<Rightarrow>
       Inl JSONDecodeError)))))))"

lemma strip_prefix_length: "strip_prefix p s = Some r \<Longrightarrow> length s = length p + length r"
  by (induction p s rule: strip_prefix.induct) (auto split: if_splits)

lemma length_dropWhile_le_trans: "length xs \<le> n \<Longrightarrow> length (dropWhile P xs) \<le> n"
  by (rule le_trans [OF length_dropWhile_le])

lemma number_int_length: "number_int s = Some (ip, r) \<Longrightarrow> length r < length s"
  by (auto simp: number_int_def less_Suc_eq_le split: list.splits if_splits
           intro: length_dropWhile_le_trans)

lemma number_frac_length: "length (snd (number_frac s)) \<le> length s"
  by (auto simp: number_frac_def split: list.splits intro: length_dropWhile_le_trans)

lemma number_exp_length: "length (snd (number_exp s)) \<le> length s"
  by (auto simp: number_exp_def Let_def split: list.splits intro: length_dropWhile_le_trans)

lemma match_number_length:
  assumes "match_number lim s = Some (Inr (v, r))"
  shows "length r < length s"
proof -
  define s1 where "s1 = (if (case s of [] \<Rightarrow> False | c # _ \<Rightarrow> c = 0x2D) then tl s else s)"
  have s1: "length s1 \<le> length s"
    by (simp add: s1_def)
  from assms obtain ip s2 where
    ni: "number_int s1 = Some (ip, s2)" and
    r: "r = snd (number_exp (snd (number_frac s2)))"
    unfolding match_number_def Let_def s1_def [symmetric]
    by (auto split: option.splits if_splits)
  have "length r \<le> length s2"
    unfolding r using number_exp_length number_frac_length order_trans by blast
  with number_int_length [OF ni] s1 show ?thesis by simp
qed

lemma scan_atom_length: "scan_atom lim s = Inr (v, r) \<Longrightarrow> length r < length s"
  unfolding scan_atom_def
  by (auto simp: asc_def split: option.splits
           dest!: strip_prefix_length dest: match_number_length)


text \<open>
  The decoder is a recursive descent over values, arrays and objects. The model keeps
  the enclosing arrays and objects on an explicit stack, so that every step consumes
  text: \<open>parse_value\<close> reads a value at the start of the text, \<open>parse_after\<close> continues
  after a value inside the innermost open array or object. White space is allowed
  around the structural characters; a trailing comma is an error.

  The scanner enters a recursive call at every \<^verbatim>\<open>[\<close> and \<^verbatim>\<open>{\<close>, before it reads
  what follows: when the arrays and objects that are open already use up the depth
  that is left, it raises \<^verbatim>\<open>RecursionError\<close>. Every other failure is an error of the
  text, \<^verbatim>\<open>json.JSONDecodeError\<close>.
\<close>

datatype frame =
    FArr "json list"
  | FObj "(pystr \<times> json) list" pystr

definition scan_key :: "pystr \<Rightarrow> (pystr \<times> pystr) option" where
  \<comment> \<open>a property name in double quotes, the colon, and the white space after it\<close>
  "scan_key s =
    (case s of
       [] \<Rightarrow> None
     | q # r \<Rightarrow>
         if q = 0x22 then
           (case scanstring r of
              None \<Rightarrow> None
            | Some (k, r1) \<Rightarrow>
                (case skip_ws r1 of
                   [] \<Rightarrow> None
                 | c # r2 \<Rightarrow> if c = 0x3A then Some (k, skip_ws r2) else None))
         else None)"

lemma skip_ws_length: "length (skip_ws s) \<le> length s"
  by (simp add: skip_ws_def length_dropWhile_le)

lemma skip_ws_Cons_length: "skip_ws s = c # r \<Longrightarrow> length r < length s"
  using skip_ws_length [of s] by simp

lemma skip_ws_Cons_length2: "skip_ws s = c # r \<Longrightarrow> length (skip_ws r) < length s"
  using skip_ws_length [of s] skip_ws_length [of r] by simp

lemma scan_key_length:
  assumes "scan_key s = Some (k, r)"
  shows "length r < length s"
proof -
  from assms obtain q t r1 c r2 where
    s: "s = q # t" and sc: "scanstring t = Some (k, r1)" and
    w: "skip_ws r1 = c # r2" and r: "r = skip_ws r2"
    by (auto simp: scan_key_def split: list.splits if_splits option.splits)
  from scanstring_length [OF sc] skip_ws_Cons_length [OF w] skip_ws_length [of r2]
  show ?thesis by (simp add: s r)
qed

lemma scan_key_after_open:
  "skip_ws cs = c # r \<Longrightarrow> scan_key (c # r) = Some (k, t) \<Longrightarrow> length t < Suc (length cs)"
  using skip_ws_Cons_length [of cs c r] scan_key_length [of "c # r" k t] by simp

lemma scan_key_after_comma:
  "skip_ws s = c # r \<Longrightarrow> scan_key (skip_ws r) = Some (k, t) \<Longrightarrow> length t < length s"
  using skip_ws_Cons_length2 [of s c r] scan_key_length [of "skip_ws r" k t] by simp

function parse_value :: "limits \<Rightarrow> frame list \<Rightarrow> pystr \<Rightarrow> exn + json \<times> pystr"
  and parse_after :: "limits \<Rightarrow> json \<Rightarrow> frame list \<Rightarrow> pystr \<Rightarrow> exn + json \<times> pystr" where
  "parse_value lim st [] = Inl JSONDecodeError"
| "parse_value lim st (c # cs) =
    (if c = 0x22 then
       (case scanstring cs of
          None \<Rightarrow> Inl JSONDecodeError
        | Some (s, r) \<Rightarrow> parse_after lim (JStr s) st r)
     else if c = 0x7B then
       (if recursion_depth lim \<le> length st then Inl RecursionError
        else
          (case skip_ws cs of
             [] \<Rightarrow> Inl JSONDecodeError
           | c1 # r1 \<Rightarrow>
               if c1 = 0x7D then parse_after lim (JObj []) st r1
               else (case scan_key (c1 # r1) of
                       None \<Rightarrow> Inl JSONDecodeError
                     | Some (k, r2) \<Rightarrow> parse_value lim (FObj [] k # st) r2)))
     else if c = 0x5B then
       (if recursion_depth lim \<le> length st then Inl RecursionError
        else
          (case skip_ws cs of
             [] \<Rightarrow> Inl JSONDecodeError
           | c1 # r1 \<Rightarrow>
               if c1 = 0x5D then parse_after lim (JArr []) st r1
               else parse_value lim (FArr [] # st) (c1 # r1)))
     else (case scan_atom lim (c # cs) of
             Inl x \<Rightarrow> Inl x
           | Inr (v, r) \<Rightarrow> parse_after lim v st r))"
| "parse_after lim v [] s = Inr (v, s)"
| "parse_after lim v (FArr acc # st) s =
    (case skip_ws s of
       [] \<Rightarrow> Inl JSONDecodeError
     | c # r \<Rightarrow>
         if c = 0x5D then parse_after lim (JArr (rev (v # acc))) st r
         else if c = 0x2C then parse_value lim (FArr (v # acc) # st) (skip_ws r)
         else Inl JSONDecodeError)"
| "parse_after lim v (FObj acc k # st) s =
    (case skip_ws s of
       [] \<Rightarrow> Inl JSONDecodeError
     | c # r \<Rightarrow>
         if c = 0x7D then parse_after lim (JObj (rev ((k, v) # acc))) st r
         else if c = 0x2C then
           (case scan_key (skip_ws r) of
              None \<Rightarrow> Inl JSONDecodeError
            | Some (k', r') \<Rightarrow> parse_value lim (FObj ((k, v) # acc) k' # st) r')
         else Inl JSONDecodeError)"
  by pat_completeness auto
termination
  by (relation "measure (\<lambda>x. case x of Inl (lim, st, s) \<Rightarrow> length s
                                     | Inr (lim, v, st, s) \<Rightarrow> length s)")
    (auto dest: scanstring_length skip_ws_Cons_length skip_ws_Cons_length2 scan_atom_length
          intro: scan_key_after_open scan_key_after_comma)

definition json_loads :: "limits \<Rightarrow> pystr \<Rightarrow> exn + json" where
  "json_loads lim s =
    (if s \<noteq> [] \<and> hd s = 0xFEFF then Inl JSONDecodeError
     else (case parse_value lim [] (skip_ws s) of
             Inl x \<Rightarrow> Inl x
           | Inr (v, r) \<Rightarrow> if skip_ws r = [] then Inr v else Inl JSONDecodeError))"


section \<open>URL-encoded forms\<close>

text \<open>
  \<^verbatim>\<open>urllib.parse.parse_qs(body)\<close> with its defaults: the separator is \<^verbatim>\<open>&\<close>, blank
  values are not kept, parsing is not strict, and percent-escapes are decoded as UTF-8
  with replacement.
\<close>

fun unquote_to_bytes :: "pystr \<Rightarrow> bytes" where
  \<comment> \<open>called on runs of ASCII characters only, where a character is its own byte\<close>
  "unquote_to_bytes [] = []"
| "unquote_to_bytes (c # cs) =
    (if c = 0x25 then
       (case cs of
          a # b # r \<Rightarrow>
            (case hexval a of
               None \<Rightarrow> char_of c # unquote_to_bytes cs
             | Some x \<Rightarrow>
                 (case hexval b of
                    None \<Rightarrow> char_of c # unquote_to_bytes cs
                  | Some y \<Rightarrow> char_of (x * 16 + y) # unquote_to_bytes r))
        | _ \<Rightarrow> char_of c # unquote_to_bytes cs)
     else char_of c # unquote_to_bytes cs)"

definition is_ascii :: "nat \<Rightarrow> bool" where
  "is_ascii c \<longleftrightarrow> c < 0x80"

function unquote_parts :: "pystr \<Rightarrow> pystr" where
  "unquote_parts [] = []"
| "unquote_parts (c # cs) =
    (if is_ascii c
     then utf8_decode (unquote_to_bytes (c # takeWhile is_ascii cs))
            @ unquote_parts (dropWhile is_ascii cs)
     else c # unquote_parts cs)"
  by pat_completeness auto
termination
  by (relation "measure length") (auto simp: less_Suc_eq_le length_dropWhile_le)

definition unquote :: "pystr \<Rightarrow> pystr" where
  "unquote s = (if 0x25 \<notin> set s then s else unquote_parts s)"

definition unquote_plus :: "pystr \<Rightarrow> pystr" where
  "unquote_plus s = unquote (map (\<lambda>c. if c = 0x2B then 0x20 else c) s)"

fun split :: "nat \<Rightarrow> pystr \<Rightarrow> pystr list" where
  \<comment> \<open>\<^verbatim>\<open>str.split(sep)\<close> for a separator of one character\<close>
  "split sep [] = [[]]"
| "split sep (c # cs) =
    (if c = sep then [] # split sep cs
     else (case split sep cs of [] \<Rightarrow> [[c]] | p # ps \<Rightarrow> (c # p) # ps))"

definition partition_eq :: "pystr \<Rightarrow> pystr \<times> pystr" where
  \<comment> \<open>name and value of \<^verbatim>\<open>name_value.partition('=')\<close>\<close>
  "partition_eq s =
    (takeWhile (\<lambda>c. c \<noteq> 0x3D) s,
     case dropWhile (\<lambda>c. c \<noteq> 0x3D) s of [] \<Rightarrow> [] | e # v \<Rightarrow> v)"

definition parse_qsl :: "pystr \<Rightarrow> (pystr \<times> pystr) list" where
  "parse_qsl qs =
    (if qs = [] then []
     else [(unquote_plus (fst (partition_eq name_value)),
            unquote_plus (snd (partition_eq name_value))).
           name_value \<leftarrow> split 0x26 qs,
           name_value \<noteq> [], snd (partition_eq name_value) \<noteq> []])"

definition parse_qs_add ::
    "(pystr \<rightharpoonup> pystr list) \<Rightarrow> pystr \<times> pystr \<Rightarrow> (pystr \<rightharpoonup> pystr list)" where
  "parse_qs_add parsed_result nv =
    (case parsed_result (fst nv) of
       Some vs \<Rightarrow> parsed_result(fst nv \<mapsto> vs @ [snd nv])
     | None \<Rightarrow> parsed_result(fst nv \<mapsto> [snd nv]))"

definition parse_qs :: "pystr \<Rightarrow> (pystr \<rightharpoonup> pystr list)" where
  "parse_qs qs = foldl parse_qs_add Map.empty (parse_qsl qs)"

section \<open>Small library functions\<close>

definition dict_get_default :: "('k \<rightharpoonup> 'v) \<Rightarrow> 'k \<Rightarrow> 'v \<Rightarrow> 'v" where
  \<comment> \<open>\<^verbatim>\<open>d.get(k, default)\<close>\<close>
  "dict_get_default d k dflt = (case d k of None \<Rightarrow> dflt | Some v \<Rightarrow> v)"

definition index0 :: "'a list \<Rightarrow> exn + 'a" where
  \<comment> \<open>\<^verbatim>\<open>xs[0]\<close>\<close>
  "index0 xs = (case xs of [] \<Rightarrow> Inl IndexError | x # _ \<Rightarrow> Inr x)"

text \<open>
  \<^verbatim>\<open>int(s)\<close> on a header value. Header values are Latin-1 text, one character for
  each byte, so they are kept as byte strings; the only decimal digits of Latin-1 are
  the ASCII ones. White space around the number is dropped, a sign may come first, and
  single underscores may separate digits. \<^const>\<open>None\<close> is \<^verbatim>\<open>ValueError\<close>, which
  \<^verbatim>\<open>int\<close> also raises for a number with more digits than the limit.
\<close>

definition int_space :: "char \<Rightarrow> bool" where
  "int_space c \<longleftrightarrow>
     (0x09 \<le> (of_char c :: nat) \<and> (of_char c :: nat) \<le> 0x0D) \<or> c = CHR 0x20 \<or>
     c = CHR 0x85 \<or> c = CHR 0xA0"

definition is_digit_char :: "char \<Rightarrow> bool" where
  "is_digit_char c \<longleftrightarrow> 0x30 \<le> (of_char c :: nat) \<and> (of_char c :: nat) \<le> 0x39"

fun int_digits :: "nat \<Rightarrow> string \<Rightarrow> nat option" where
  "int_digits acc [] = Some acc"
| "int_digits acc (c # cs) =
    (if is_digit_char c then int_digits (acc * 10 + (of_char c - 0x30)) cs
     else if c = CHR ''_'' then
       (case cs of
          [] \<Rightarrow> None
        | d # _ \<Rightarrow> if is_digit_char d then int_digits acc cs else None)
     else None)"

definition py_int :: "limits \<Rightarrow> string \<Rightarrow> int option" where
  "py_int lim s =
    (let t = rev (dropWhile int_space (rev (dropWhile int_space s)));
         neg = (case t of [] \<Rightarrow> False | c # _ \<Rightarrow> c = CHR ''-'');
         u = (case t of [] \<Rightarrow> t | c # r \<Rightarrow> if c = CHR ''-'' \<or> c = CHR ''+'' then r else t)
     in case u of
          [] \<Rightarrow> None
        | d # _ \<Rightarrow>
            if is_digit_char d then
              (case int_digits 0 u of
                 None \<Rightarrow> None
               | Some n \<Rightarrow>
                   if int_too_long lim (length (filter is_digit_char u)) then None
                   else Some (if neg then - int n else int n))
            else None)"

text \<open>
  \<^verbatim>\<open>rfile.read(n)\<close> on a buffered reader over the bytes that the client sends before
  it closes: up to \<open>n\<close> bytes, everything for \<open>-1\<close>. The size must fit an index. For
  a size above 0 the reader makes the \<^verbatim>\<open>bytes\<close> object of \<open>n\<close> bytes for its result
  before it looks at what the client sent: a length above the largest one raises
  \<^verbatim>\<open>OverflowError\<close>, and a length for which there is no memory raises
  \<^verbatim>\<open>MemoryError\<close>.
\<close>

definition rfile_read :: "limits \<Rightarrow> bytes \<Rightarrow> int \<Rightarrow> exn + bytes" where
  "rfile_read lim stream n =
    (if n < - int (max_size lim) - 1 \<or> int (max_size lim) < n then Inl OverflowError
     else if n < - 1 then Inl ValueError
     else if n = - 1 then Inr stream
     else if int (max_bytes lim) < n then Inl OverflowError
     else if 0 < n \<and> \<not> can_allocate lim (nat n) then Inl MemoryError
     else Inr (take (nat n) stream))"

function str_nat :: "nat \<Rightarrow> string" where
  \<comment> \<open>\<^verbatim>\<open>str(n)\<close> for a length\<close>
  "str_nat n =
    (if n < 10 then [char_of (0x30 + n)]
     else str_nat (n div 10) @ [char_of (0x30 + n mod 10)])"
  by pat_completeness auto
termination
  by (relation "measure id") auto


section \<open>The Front Door: \<^verbatim>\<open>SimpleRouter\<close>\<close>

text \<open>
  A request as the handler sees it: the request target \<^verbatim>\<open>self.path\<close>, the value of
  \<^verbatim>\<open>self.headers.get("Content-Length")\<close>, and the bytes that follow the header block on
  the connection until the client closes its side.

  A response is what the handler writes: the status of \<^verbatim>\<open>send_response\<close>, the headers
  of its own \<^verbatim>\<open>send_header\<close> calls in order, and the body; or the built-in error page of
  \<^verbatim>\<open>send_error\<close>. An exception that leaves the handler is \<^const>\<open>Inl\<close>: the framework
  then closes the connection.
\<close>

record request =
  path :: pystr
  content_length :: "string option"
  rfile :: bytes

datatype response =
    Response nat "(string \<times> string) list" bytes
  | SendError nat string

fun status :: "response \<Rightarrow> nat" where
  "status (Response code hs b) = code"
| "status (SendError code msg) = code"

text \<open>
  The files below \<^verbatim>\<open>BASE_DIR\<close>, named by their path components. A file is missing,
  readable with its content, or present but not readable (a directory, a file without
  permission): \<^verbatim>\<open>os.path.exists\<close> holds for the last two, and \<^verbatim>\<open>open\<close> raises
  \<^verbatim>\<open>FileNotFoundError\<close> for the first and another \<^verbatim>\<open>OSError\<close> for the last. The table
  of \<^verbatim>\<open>mimetypes\<close> is a parameter, and so are the limits of the interpreter that runs
  the Front Door.
\<close>

datatype file_state = Missing | File bytes | Unreadable

record env =
  fs :: "string list \<Rightarrow> file_state"
  mimetypes :: "string list \<Rightarrow> string option"
  interp :: limits

definition read_file_bytes :: "env \<Rightarrow> string list \<Rightarrow> exn + bytes" where
  "read_file_bytes e p =
    (case fs e p of
       File d \<Rightarrow> Inr d
     | Missing \<Rightarrow> Inl FileNotFoundError
     | Unreadable \<Rightarrow> Inl OSError)"

definition guess_type :: "env \<Rightarrow> string list \<Rightarrow> string" where
  "guess_type e p =
    (case mimetypes e p of
       None \<Rightarrow> ''application/octet-stream''
     | Some typ \<Rightarrow> if typ \<noteq> [] then typ else ''application/octet-stream'')"

definition exists :: "env \<Rightarrow> string list \<Rightarrow> bool" where
  "exists e p \<longleftrightarrow> fs e p \<noteq> Missing"

definition error_path :: "string list" where
  "error_path = [''error.html'']"

function respond_file :: "env \<Rightarrow> string list \<Rightarrow> nat \<Rightarrow> string option \<Rightarrow> exn + response"
  and respond_404 :: "env \<Rightarrow> exn + response" where
  "respond_file e filepath code content_type =
    (case read_file_bytes e filepath of
       Inr data \<Rightarrow>
         Inr (Response code
                [(''Content-Type'',
                  (case content_type of
                     None \<Rightarrow> guess_type e filepath
                   | Some t \<Rightarrow> if t \<noteq> [] then t else guess_type e filepath)),
                 (''Content-Length'', str_nat (length data))]
                data)
     | Inl x \<Rightarrow> if x = FileNotFoundError then respond_404 e else Inl x)"
| "respond_404 e =
    (if exists e error_path
     then respond_file e error_path 404 (Some ''text/html; charset=utf-8'')
     else Inr (SendError 404 ''Not Found''))"
  by pat_completeness auto
termination
  by (relation "measure (\<lambda>x. case x of
          Inl (e, p, c, t) \<Rightarrow> (if fs e p = Missing then 2 else 0)
        | Inr e \<Rightarrow> 1)")
    (auto simp: read_file_bytes_def exists_def split: file_state.splits)

declare respond_file.simps [simp del] respond_404.simps [simp del] str_nat.simps [simp del]

definition do_GET :: "env \<Rightarrow> request \<Rightarrow> exn + response" where
  "do_GET e req =
    (if path req = asc ''/'' \<or> path req = asc ''/index.html''
     then respond_file e [''index.html''] 200 (Some ''text/html; charset=utf-8'')
     else if path req = asc ''/message.html''
     then respond_file e [''message.html''] 200 (Some ''text/html; charset=utf-8'')
     else if path req = asc ''/style.css''
     then respond_file e [''static'', ''style.css''] 200 (Some ''text/css; charset=utf-8'')
     else if path req = asc ''/logo.png''
     then respond_file e [''static'', ''logo.png''] 200 (Some ''image/png'')
     else respond_404 e)"

text \<open>
  The relay \<^verbatim>\<open>socket.create_connection(..., timeout=5)\<close> followed by \<^verbatim>\<open>sendall\<close>, as
  the network decides it: the worker is reached and gets the whole payload; or the
  connection cannot be made; or the connection is made and \<^verbatim>\<open>sendall\<close> raises after
  some bytes went out. The text is \<^verbatim>\<open>str(e)\<close> of the exception. The socket is closed
  when the \<^verbatim>\<open>with\<close> block is left, so the worker reads the bytes that went out and
  then the end of the stream.
\<close>

datatype net =
    Reachable
  | Unreachable pystr
  | Broken nat pystr

fun relay_error :: "net \<Rightarrow> pystr option" where
  "relay_error Reachable = None"
| "relay_error (Unreachable msg) = Some msg"
| "relay_error (Broken k msg) = Some msg"

fun delivered :: "net \<Rightarrow> bytes \<Rightarrow> bytes option" where
  \<comment> \<open>what the connection accepted by the worker carries; \<^const>\<open>None\<close>: no connection\<close>
  "delivered Reachable payload = Some payload"
| "delivered (Unreachable msg) payload = None"
| "delivered (Broken k msg) payload = Some (take k payload)"

text \<open>
  \<^verbatim>\<open>do_POST\<close> returns the response, or the exception that left it, and the payloads
  that it handed to the network, one for each connection it opened.
\<close>

definition form_field :: "(pystr \<rightharpoonup> pystr list) \<Rightarrow> pystr \<Rightarrow> exn + pystr" where
  \<comment> \<open>\<^verbatim>\<open>(form.get(key, [""])[0]).strip()\<close>\<close>
  "form_field form key =
    (case index0 (dict_get_default form key [[]]) of
       Inl x \<Rightarrow> Inl x
     | Inr v \<Rightarrow> Inr (strip v))"

definition send_payload :: "net \<Rightarrow> bytes \<Rightarrow> (exn + response) \<times> bytes list" where
  \<comment> \<open>lines 82 to 97: the relay and the answer to the browser\<close>
  "send_payload n payload =
    (case relay_error n of
       Some msg \<Rightarrow>
         (case utf8_encode (asc ''Socket server error: '' @ msg) of
            None \<Rightarrow> (Inl UnicodeEncodeError, [payload])
          | Some text \<Rightarrow>
              (Inr (Response 500 [(''Content-Type'', ''text/plain; charset=utf-8'')] text),
               [payload]))
     | None \<Rightarrow> (Inr (Response 302 [(''Location'', ''/'')] []), [payload]))"

definition do_POST :: "env \<Rightarrow> net \<Rightarrow> request \<Rightarrow> (exn + response) \<times> bytes list" where
  "do_POST e n req =
    (if path req \<noteq> asc ''/message'' then (respond_404 e, [])
     else
       (case py_int (interp e) (case content_length req of None \<Rightarrow> ''0'' | Some h \<Rightarrow> h) of
          None \<Rightarrow> (Inl ValueError, [])
        | Some len \<Rightarrow>
            (case rfile_read (interp e) (rfile req) len of
               Inl x \<Rightarrow> (Inl x, [])
             | Inr raw \<Rightarrow>
                 (let form = parse_qs (utf8_decode raw) in
                  case form_field form (asc ''username'') of
                    Inl x \<Rightarrow> (Inl x, [])
                  | Inr username \<Rightarrow>
                      (case form_field form (asc ''message'') of
                         Inl x \<Rightarrow> (Inl x, [])
                       | Inr message \<Rightarrow>
                           (case utf8_encode
                                   (json_dumps [(asc ''username'', username),
                                                (asc ''message'', message)]) of
                              None \<Rightarrow> (Inl UnicodeEncodeError, [])
                            | Some payload \<Rightarrow> send_payload n payload))))))"


section \<open>The Ingest Worker: \<^verbatim>\<open>handle_client\<close>\<close>

text \<open>
  The document handed to the sink is a Python dictionary with string keys, kept as the
  list of its items. The sink \<^verbatim>\<open>col\<close> is the list of the documents it holds; whether
  \<^verbatim>\<open>insert_one\<close> accepts a document or raises is a parameter. What the store adds to a
  document on its own (an identifier) is outside the model.
\<close>

type_synonym doc = "(string \<times> pystr) list"

definition float_nonzero :: "int \<Rightarrow> int \<Rightarrow> bool" where
  \<comment> \<open>the \<^verbatim>\<open>float\<close> nearest to \<open>m \<times> 10\<^sup>e\<close> is not zero: the decimal is above \<open>2\<^sup>-\<^sup>1\<^sup>0\<^sup>7\<^sup>5\<close>,
      half of the least positive \<^verbatim>\<open>float\<close>\<close>
  "float_nonzero m e =
    (if 0 \<le> e then m \<noteq> 0 else 10 ^ nat (- e) < \<bar>m\<bar> * 2 ^ 1075)"

fun truthy :: "json \<Rightarrow> bool" where
  "truthy JNull = False"
| "truthy (JBool b) = b"
| "truthy (JInt i) = (i \<noteq> 0)"
| "truthy (JFloat m e) = float_nonzero m e"
| "truthy JNaN = True"
| "truthy JInfinity = True"
| "truthy JNegInfinity = True"
| "truthy (JStr s) = (s \<noteq> [])"
| "truthy (JArr xs) = (xs \<noteq> [])"
| "truthy (JObj ps) = (ps \<noteq> [])"

definition dict_get :: "(pystr \<times> json) list \<Rightarrow> pystr \<Rightarrow> json" where
  \<comment> \<open>\<^verbatim>\<open>d.get(key)\<close> on the decoded object: the last pair with the key, \<^verbatim>\<open>None\<close> without one\<close>
  "dict_get ps key = (case map_of (rev ps) key of None \<Rightarrow> JNull | Some v \<Rightarrow> v)"

definition or_empty_strip :: "json \<Rightarrow> exn + pystr" where
  \<comment> \<open>\<^verbatim>\<open>(v or "").strip()\<close>: only a \<^verbatim>\<open>str\<close> has \<^verbatim>\<open>strip\<close>\<close>
  "or_empty_strip v =
    (if truthy v then (case v of JStr s \<Rightarrow> Inr (strip s) | _ \<Rightarrow> Inl AttributeError)
     else Inr (strip []))"

definition make_doc :: "pystr \<Rightarrow> json \<Rightarrow> exn + doc" where
  \<comment> \<open>lines 127 to 131; only a \<^verbatim>\<open>dict\<close> has \<^verbatim>\<open>get\<close>\<close>
  "make_doc now doc_in =
    (case doc_in of
       JObj ps \<Rightarrow>
         (case or_empty_strip (dict_get ps (asc ''username'')) of
            Inl x \<Rightarrow> Inl x
          | Inr username \<Rightarrow>
              (case or_empty_strip (dict_get ps (asc ''message'')) of
                 Inl x \<Rightarrow> Inl x
               | Inr message \<Rightarrow>
                   Inr [(''date'', now), (''username'', username), (''message'', message)]))
     | _ \<Rightarrow> Inl AttributeError)"

text \<open>
  The connection is the list of what the successive calls of \<^verbatim>\<open>conn.recv(4096)\<close>
  return; when the list is used up the peer has closed its side and \<^verbatim>\<open>recv\<close> returns
  the empty byte string. The calls made on the connection are recorded.
\<close>

datatype recv = Bytes bytes | RecvError

datatype conn_event = Recv bytes | RecvFailed | Send bytes | Close

fun recv_loop ::
    "recv list \<Rightarrow> bytes list \<Rightarrow> conn_event list \<Rightarrow> (exn + bytes list) \<times> conn_event list" where
  "recv_loop [] chunks tr = (Inr chunks, tr @ [Recv []])"
| "recv_loop (Bytes d # rest) chunks tr =
    (if d = [] then (Inr chunks, tr @ [Recv []])
     else recv_loop rest (chunks @ [d]) (tr @ [Recv d]))"
| "recv_loop (RecvError # rest) chunks tr = (Inl OSError, tr @ [RecvFailed])"

record worker_run =
  raised :: "exn option"
  trace :: "conn_event list"
  inserts :: "doc list"
  collection :: "doc list"

definition decode_payload :: "limits \<Rightarrow> pystr \<Rightarrow> exn + json" where
  \<comment> \<open>lines 122 to 125: of the exceptions of \<^verbatim>\<open>json.loads\<close> only
      \<^verbatim>\<open>json.JSONDecodeError\<close> is caught\<close>
  "decode_payload lim raw =
    (if raw \<noteq> [] then
       (case json_loads lim raw of
          Inl x \<Rightarrow> if x = JSONDecodeError then Inr (JObj []) else Inl x
        | Inr v \<Rightarrow> Inr v)
     else Inr (JObj []))"

definition handle_client ::
    "limits \<Rightarrow> pystr \<Rightarrow> (doc \<Rightarrow> bool) \<Rightarrow> recv list \<Rightarrow> doc list \<Rightarrow> worker_run" where
  "handle_client lim now accepts conn col =
    (case recv_loop conn [] [] of
       (Inl x, tr) \<Rightarrow>
         \<lparr>raised = Some x, trace = tr @ [Close], inserts = [], collection = col\<rparr>
     | (Inr chunks, tr) \<Rightarrow>
         (let raw = utf8_decode (concat chunks)
          in case decode_payload lim raw of
               Inl x \<Rightarrow>
                 \<lparr>raised = Some x, trace = tr @ [Close], inserts = [], collection = col\<rparr>
             | Inr doc_in \<Rightarrow>
                 (case make_doc now doc_in of
                    Inl x \<Rightarrow>
                      \<lparr>raised = Some x, trace = tr @ [Close], inserts = [], collection = col\<rparr>
                  | Inr d \<Rightarrow>
                      \<lparr>raised = None, trace = tr @ [Close], inserts = [d],
                       collection = (if accepts d then col @ [d] else col)\<rparr>)))"

text \<open>
  \<^verbatim>\<open>socket_server\<close> hands every accepted connection to \<^verbatim>\<open>handle_client\<close> with the one
  collection. The model takes the connections one after the other, each with the time
  at which its handler reads the clock.
\<close>

fun socket_server ::
    "limits \<Rightarrow> (doc \<Rightarrow> bool) \<Rightarrow> (pystr \<times> recv list) list \<Rightarrow> doc list \<Rightarrow> doc list" where
  "socket_server lim accepts [] col = col"
| "socket_server lim accepts (c # cs) col =
    socket_server lim accepts cs (collection (handle_client lim (fst c) accepts (snd c) col))"

text \<open>
  One form submission through both processes: the handler of the Front Door, then the
  worker on the connections that the relay opened.
\<close>

definition accepted :: "net \<Rightarrow> pystr \<Rightarrow> bytes list \<Rightarrow> (pystr \<times> recv list) list" where
  "accepted n now payloads =
    concat (map (\<lambda>payload. case delivered n payload of
                              None \<Rightarrow> []
                            | Some b \<Rightarrow> [(now, [Bytes b])]) payloads)"

definition post_message ::
    "env \<Rightarrow> net \<Rightarrow> limits \<Rightarrow> pystr \<Rightarrow> (doc \<Rightarrow> bool) \<Rightarrow> request \<Rightarrow> doc list \<Rightarrow>
       (exn + response) \<times> doc list" where
  "post_message e n lim now accepts req col =
    (fst (do_POST e n req),
     socket_server lim accepts (accepted n now (snd (do_POST e n req))) col)"


section \<open>Notions used to state the properties\<close>

definition payload_field :: "limits \<Rightarrow> pystr \<Rightarrow> pystr \<Rightarrow> pystr" where
  \<comment> \<open>the trimmed value of a field of the submission carried by a payload; empty when the
      payload does not decode to an object or the field is not a string in it\<close>
  "payload_field lim raw key =
    (case json_loads lim raw of
       Inr (JObj ps) \<Rightarrow> (case dict_get ps key of JStr s \<Rightarrow> strip s | _ \<Rightarrow> [])
     | _ \<Rightarrow> [])"

fun is_send :: "conn_event \<Rightarrow> bool" where
  "is_send (Send b) = True"
| "is_send _ = False"

fun reads :: "recv list \<Rightarrow> conn_event list" where
  \<comment> \<open>reading until the end of the stream: every chunk up to the first empty one\<close>
  "reads [] = [Recv []]"
| "reads (Bytes d # rest) = (if d = [] then [Recv []] else Recv d # reads rest)"
| "reads (RecvError # rest) = [RecvFailed]"

definition accept_all :: "doc \<Rightarrow> bool" where
  "accept_all d = True"

definition reject_all :: "doc \<Rightarrow> bool" where
  "reject_all d = False"

definition first_value :: "(pystr \<times> pystr) list \<Rightarrow> pystr \<Rightarrow> pystr" where
  \<comment> \<open>the value of the first pair with the key, empty without one\<close>
  "first_value pairs key = (case filter (\<lambda>p. fst p = key) pairs of [] \<Rightarrow> [] | p # _ \<Rightarrow> snd p)"

definition form_pairs :: "pystr \<Rightarrow> (pystr \<times> pystr) list" where
  \<comment> \<open>the name-value pairs of URL-encoded form data: the non-empty pieces between
      \<^verbatim>\<open>&\<close>, each split at its first \<^verbatim>\<open>=\<close>, both sides decoded; a blank value is a value\<close>
  "form_pairs qs =
    map (\<lambda>nv. (unquote_plus (fst (partition_eq nv)), unquote_plus (snd (partition_eq nv))))
      (filter (\<lambda>nv. nv \<noteq> []) (split 0x26 qs))"

definition submission_payload :: "pystr \<Rightarrow> pystr \<Rightarrow> bytes" where
  \<comment> \<open>the bytes of the JSON text of \<^verbatim>\<open>{"username": username, "message": message}\<close>\<close>
  "submission_payload username message =
    map char_of (json_dumps [(asc ''username'', username), (asc ''message'', message)])"

definition printable :: "nat \<Rightarrow> bool" where
  \<comment> \<open>a printable ASCII character: no control character, so no line break\<close>
  "printable x \<longleftrightarrow> 0x20 \<le> x \<and> x \<le> 0x7E"

definition file_response :: "nat \<Rightarrow> string \<Rightarrow> bytes \<Rightarrow> response" where
  "file_response code ctype d =
    Response code [(''Content-Type'', ctype), (''Content-Length'', str_nat (length d))] d"

definition static_file :: "pystr \<Rightarrow> (string list \<times> string) option" where
  \<comment> \<open>the static resources of the HTTP surface: file and content type for a request target\<close>
  "static_file p =
    (if p = asc ''/'' \<or> p = asc ''/index.html''
     then Some ([''index.html''], ''text/html; charset=utf-8'')
     else if p = asc ''/message.html'' then Some ([''message.html''], ''text/html; charset=utf-8'')
     else if p = asc ''/style.css'' then Some ([''static'', ''style.css''], ''text/css; charset=utf-8'')
     else if p = asc ''/logo.png'' then Some ([''static'', ''logo.png''], ''image/png'')
     else None)"

definition not_found_page :: "env \<Rightarrow> exn + response" where
  \<comment> \<open>the custom not-found page when \<^verbatim>\<open>error.html\<close> exists, the built-in one otherwise\<close>
  "not_found_page e =
    (case fs e [''error.html''] of
       File d \<Rightarrow> Inr (file_response 404 ''text/html; charset=utf-8'' d)
     | Missing \<Rightarrow> Inr (SendError 404 ''Not Found'')
     | Unreadable \<Rightarrow> Inl OSError)"

definition readable :: "limits \<Rightarrow> int \<Rightarrow> bool" where
  \<comment> \<open>the reader can make a result of this many bytes\<close>
  "readable lim len \<longleftrightarrow>
     len \<le> int (max_size lim) \<and> len \<le> int (max_bytes lim) \<and>
     (len = 0 \<or> can_allocate lim (nat len))"

definition example_limits :: limits where
  \<comment> \<open>the defaults of CPython on a 64-bit build: the recursion limit 1000, of which the
      decoder has less than all, and 4300 digits; memory for objects of up to 4 GiB\<close>
  "example_limits =
     \<lparr>recursion_depth = 1000, max_str_digits = 4300,
      max_size = 9223372036854775807, max_bytes = 9223372036854775774,
      can_allocate = (\<lambda>n. n \<le> 4294967296)\<rparr>"

definition no_files :: env where
  "no_files = \<lparr>fs = (\<lambda>p. Missing), mimetypes = (\<lambda>p. None), interp = example_limits\<rparr>"

definition site :: env where
  "site = \<lparr>fs = (\<lambda>p. if p = [''static'', ''style.css''] then File ''body {}''
                      else if p = [''error.html''] then File ''<h1>404</h1>''
                      else Missing),
           mimetypes = (\<lambda>p. None), interp = example_limits\<rparr>"

definition post_ab :: request where
  "post_ab = \<lparr>path = asc ''/message'', content_length = Some ''20'', rfile = ''username=a&message=b''\<rparr>"

definition post_bare :: request where
  "post_bare = \<lparr>path = asc ''/message'', content_length = None, rfile = ''username=a&message=b''\<rparr>"

definition get_style :: request where
  "get_style = \<lparr>path = asc ''/style.css'', content_length = None, rfile = []\<rparr>"

definition get_other :: request where
  "get_other = \<lparr>path = asc ''/unknown-path'', content_length = None, rfile = []\<rparr>"

definition post_huge :: request where
  "post_huge =
     \<lparr>path = asc ''/message'', content_length = Some ''99999999999999999999'',
      rfile = ''username=a&message=b''\<rparr>"

definition post_blank_first :: request where
  "post_blank_first =
     \<lparr>path = asc ''/message'', content_length = Some ''22'', rfile = ''username=&username=bob''\<rparr>"

definition example_now :: pystr where
  "example_now = asc ''2024-05-01 12:00:00.000000''"

definition deep_payload :: bytes where
  \<comment> \<open>1001 opening brackets\<close>
  "deep_payload = replicate 1001 (CHR ''['')"

section \<open>Properties of the text functions\<close>

subsection \<open>Trimming is idempotent\<close>




lemma strip_Nil: "strip [] = []"
  by (simp add: strip_def lstrip_def rstrip_def)

subsection \<open>An escaped string is scanned back\<close>

lemma hexval_hex_digit: "d < 16 \<Longrightarrow> hexval (hex_digit d) = Some d"
  by (auto simp: hexval_def hex_digit_def)

lemma hex4_value:
  fixes n :: nat
  assumes "n < 65536"
  shows "((n div 4096 mod 16 * 16 + n div 256 mod 16) * 16 + n div 16 mod 16) * 16 + n mod 16 = n"
proof -
  define d1 where "d1 = n div 16"
  define d2 where "d2 = d1 div 16"
  define d3 where "d3 = d2 div 16"
  have e2: "n div 256 = d2"
    unfolding d2_def d1_def by (simp add: div_mult2_eq [symmetric])
  have e3: "n div 4096 = d3"
    unfolding d3_def d2_def d1_def by (simp add: div_mult2_eq [symmetric])
  have "d3 < 16"
    using assms unfolding e3 [symmetric] by (simp add: less_mult_imp_div_less)
  then have m3: "d3 mod 16 = d3" by simp
  have s3: "d3 * 16 + d2 mod 16 = d2"
    unfolding d3_def by (rule div_mult_mod_eq)
  have s2: "d2 * 16 + d1 mod 16 = d1"
    unfolding d2_def by (rule div_mult_mod_eq)
  have s1: "d1 * 16 + n mod 16 = n"
    unfolding d1_def by (rule div_mult_mod_eq)
  show ?thesis
    unfolding e2 e3 d1_def [symmetric] m3 s3 s2 s1 ..
qed

lemma decode_hex4:
  assumes "n < 65536"
  shows "decode_uXXXX (hex4 n @ t) = Some (n, t)"
proof -
  have h: "hexval (hex_digit (n div 4096 mod 16)) = Some (n div 4096 mod 16)"
    "hexval (hex_digit (n div 256 mod 16)) = Some (n div 256 mod 16)"
    "hexval (hex_digit (n div 16 mod 16)) = Some (n div 16 mod 16)"
    "hexval (hex_digit (n mod 16)) = Some (n mod 16)"
    by (simp_all add: hexval_hex_digit)
  show ?thesis
    unfolding hex4_def
    by (simp only: append_Cons append_Nil decode_uXXXX.simps h option.case hex4_value [OF assms])
qed

lemma scan_escape_bmp:
  assumes "n < 65536" and "\<not> (0xD800 \<le> n \<and> n \<le> 0xDBFF)"
  shows "scan_escape (0x75 # hex4 n @ t) = Some (n, t)"
  using assms by (auto simp: decode_hex4)

lemma scan_escape_pair:
  assumes "0xD800 \<le> hi" "hi \<le> 0xDBFF" "0xDC00 \<le> lo" "lo \<le> 0xDFFF"
  shows "scan_escape (0x75 # hex4 hi @ 0x5C # 0x75 # hex4 lo @ t) =
           Some (0x10000 + (hi - 0xD800) * 1024 + (lo - 0xDC00), t)"
proof -
  have a: "decode_uXXXX (hex4 hi @ 0x5C # 0x75 # hex4 lo @ t) = Some (hi, 0x5C # 0x75 # hex4 lo @ t)"
    using assms by (intro decode_hex4) simp
  have b: "decode_uXXXX (hex4 lo @ t) = Some (lo, t)"
    using assms by (intro decode_hex4) simp
  show ?thesis
    using assms by (simp add: a b)
qed

lemma surrogate_join:
  fixes c :: nat
  assumes "0x10000 \<le> c" "c < 0x110000"
  shows "0x10000 + (0xD800 + (c - 0x10000) div 1024 mod 1024 - 0xD800) * 1024
           + (0xDC00 + (c - 0x10000) mod 1024 - 0xDC00) = c"
proof -
  define k where "k = c - 0x10000"
  have k: "k < 1024 * 1024" using assms by (simp add: k_def)
  then have "k div 1024 < 1024" by (simp add: less_mult_imp_div_less)
  then have m: "k div 1024 mod 1024 = k div 1024" by simp
  have j: "k div 1024 * 1024 + k mod 1024 = k" by (rule div_mult_mod_eq)
  have "0x10000 + k = c" using assms by (simp add: k_def)
  with j show ?thesis
    unfolding k_def [symmetric] m by simp
qed

lemma scanstring_escape_char:
  assumes "is_scalar c"
  shows "scanstring (escape_char c @ t) =
           (case scanstring t of None \<Rightarrow> None | Some (s, r) \<Rightarrow> Some (c # s, r))"
proof -
  consider
      (special) "c = 0x22 \<or> c = 0x5C \<or> c = 0x0A \<or> c = 0x0D \<or> c = 0x09 \<or> c = 0x0C \<or> c = 0x08"
    | (plain) "0x20 \<le> c" "c \<le> 0x7E" "c \<noteq> 0x22" "c \<noteq> 0x5C"
    | (bmp) "c < 0x20 \<or> 0x7E < c" "c < 0x10000"
        "c \<noteq> 0x0A" "c \<noteq> 0x0D" "c \<noteq> 0x09" "c \<noteq> 0x0C" "c \<noteq> 0x08"
    | (astral) "0x10000 \<le> c"
    by linarith
  then show ?thesis
  proof cases
    case special
    then show ?thesis
      by (elim disjE) (auto simp: escape_char_def split: option.splits)
  next
    case plain
    then show ?thesis
      by (simp add: escape_char_def)
  next
    case bmp
    then have e: "escape_char c = 0x5C # 0x75 # hex4 c"
      by (auto simp: escape_char_def u_escape_def)
    from assms bmp have "\<not> (0xD800 \<le> c \<and> c \<le> 0xDBFF)"
      by (auto simp: is_scalar_def)
    from scan_escape_bmp [OF bmp(2) this] show ?thesis
      by (simp add: e)
  next
    case astral
    with assms have lt: "c < 0x110000" by (simp add: is_scalar_def)
    define hi where "hi = 0xD800 + (c - 0x10000) div 1024 mod 1024"
    define lo where "lo = 0xDC00 + (c - 0x10000) mod 1024"
    have e: "escape_char c = 0x5C # 0x75 # hex4 hi @ 0x5C # 0x75 # hex4 lo"
      using astral by (simp add: escape_char_def u_escape_def hi_def lo_def)
    have r: "0xD800 \<le> hi" "hi \<le> 0xDBFF" "0xDC00 \<le> lo" "lo \<le> 0xDFFF"
      unfolding hi_def lo_def
      using mod_less_divisor [of 1024 "(c - 0x10000) div 1024"]
            mod_less_divisor [of 1024 "c - 0x10000"]
      by simp_all
    have j: "0x10000 + (hi - 0xD800) * 1024 + (lo - 0xDC00) = c"
      unfolding hi_def lo_def by (rule surrogate_join [OF astral lt])
    from scan_escape_pair [OF r, of t] show ?thesis
      by (simp add: e j)
  qed
qed

lemma scanstring_escaped:
  "\<forall>c\<in>set s. is_scalar c \<Longrightarrow>
     scanstring (concat (map escape_char s) @ 0x22 # rest) = Some (s, rest)"
proof (induction s)
  case Nil
  show ?case by simp
next
  case (Cons c s)
  then have "is_scalar c" and
    ih: "scanstring (concat (map escape_char s) @ 0x22 # rest) = Some (s, rest)"
    by simp_all
  from scanstring_escape_char [OF \<open>is_scalar c\<close>, of "concat (map escape_char s) @ 0x22 # rest"]
  show ?case by (simp add: ih)
qed


section \<open>The Ingest Worker\<close>


lemma or_empty_strip_JNull: "or_empty_strip JNull = Inr []"
  by (simp add: or_empty_strip_def strip_Nil)

lemma make_doc_empty:
  "make_doc now (JObj []) = Inr [(''date'', now), (''username'', []), (''message'', [])]"
  by (simp add: make_doc_def dict_get_def or_empty_strip_JNull)




lemma recv_loop_trace: "snd (recv_loop conn chunks tr) = tr @ reads conn"
  by (induction conn chunks tr rule: recv_loop.induct) simp_all

lemma reads_no_send: "\<not> is_send ev" if "ev \<in> set (reads conn)"
  using that by (induction conn rule: reads.induct) (auto split: if_splits)

lemma handle_client_trace: "trace (handle_client lim now accepts conn col) = reads conn @ [Close]"
proof -
  obtain r tr where rl: "recv_loop conn [] [] = (r, tr)"
    by (cases "recv_loop conn [] []")
  with recv_loop_trace [of conn "[]" "[]"] have "tr = reads conn" by simp
  with rl show ?thesis
    by (cases r) (simp_all add: handle_client_def Let_def split: sum.splits)
qed

text \<open>
  What a run that hands a document to the sink has done: it read the connection to
  its end, decoded the payload and built the one document.
\<close>

lemma handle_client_inserted:
  assumes "d \<in> set (inserts (handle_client lim now accepts conn col))"
  shows "\<exists>chunks tr doc_in.
           recv_loop conn [] [] = (Inr chunks, tr) \<and>
           decode_payload lim (utf8_decode (concat chunks)) = Inr doc_in \<and>
           make_doc now doc_in = Inr d"
proof -
  obtain r tr where rl: "recv_loop conn [] [] = (r, tr)"
    by (cases "recv_loop conn [] []")
  from assms rl obtain chunks where r: "r = Inr chunks"
    by (cases r) (auto simp: handle_client_def)
  from assms rl r obtain doc_in where
    dp: "decode_payload lim (utf8_decode (concat chunks)) = Inr doc_in"
    by (cases "decode_payload lim (utf8_decode (concat chunks))") (auto simp: handle_client_def)
  from assms rl r dp have "make_doc now doc_in = Inr d"
    by (cases "make_doc now doc_in") (auto simp: handle_client_def)
  with rl r dp show ?thesis by blast
qed

lemma handle_client_run:
  assumes "recv_loop conn [] [] = (Inr chunks, tr)"
    and "decode_payload lim (utf8_decode (concat chunks)) = Inr doc_in"
    and "make_doc now doc_in = Inr d"
  shows "handle_client lim now accepts conn col =
           \<lparr>raised = None, trace = tr @ [Close], inserts = [d],
            collection = (if accepts d then col @ [d] else col)\<rparr>"
  using assms by (simp add: handle_client_def)


text \<open>
  Claim C4, as amended. When the connection has been read to its end and the payload
  is empty or is text that the decoder rejects with \<^verbatim>\<open>json.JSONDecodeError\<close>, the worker
  raises nothing, builds the record with empty \<^verbatim>\<open>username\<close> and \<^verbatim>\<open>message\<close>, hands it
  to the sink once, and closes the connection.
\<close>

theorem undecodable_payload_gives_empty_record:
  assumes "recv_loop conn [] [] = (Inr chunks, tr)"
    and "concat chunks = [] \<or>
         json_loads lim (utf8_decode (concat chunks)) = Inl JSONDecodeError"
  shows "raised (handle_client lim now accepts conn col) = None \<and>
         inserts (handle_client lim now accepts conn col) =
           [[(''date'', now), (''username'', []), (''message'', [])]] \<and>
         trace (handle_client lim now accepts conn col) = tr @ [Close]"
proof -
  from assms(2) have "utf8_decode (concat chunks) = [] \<or>
      json_loads lim (utf8_decode (concat chunks)) = Inl JSONDecodeError"
    by (elim disjE) (simp_all only: utf8_decode.simps simp_thms)
  then have "decode_payload lim (utf8_decode (concat chunks)) = Inr (JObj [])"
    by (auto simp: decode_payload_def)
  from handle_client_run [OF assms(1) this make_doc_empty] show ?thesis
    by simp
qed

text \<open>
  Claim C5. When the sink refuses the document that the worker hands to it, the
  worker has handed over this one document once and does not try again, it returns
  without an exception, the sink is unchanged, and everything else is as in the run
  in which the sink accepts the document.
\<close>

theorem insert_failure_is_discarded:
  assumes "d \<in> set (inserts (handle_client lim now accepts conn col))" and "\<not> accepts d"
  shows "inserts (handle_client lim now accepts conn col) = [d] \<and>
         raised (handle_client lim now accepts conn col) = None \<and>
         collection (handle_client lim now accepts conn col) = col \<and>
         handle_client lim now accepts conn col =
           (handle_client lim now accept_all conn col)\<lparr>collection := col\<rparr>"
proof -
  from handle_client_inserted [OF assms(1)] obtain chunks tr doc_in where
    rl: "recv_loop conn [] [] = (Inr chunks, tr)" and
    dp: "decode_payload lim (utf8_decode (concat chunks)) = Inr doc_in" and
    md: "make_doc now doc_in = Inr d"
    by blast
  from handle_client_run [OF rl dp md, of accepts col]
       handle_client_run [OF rl dp md, of accept_all col] assms(2)
  show ?thesis
    by (simp add: accept_all_def)
qed

text \<open>
  Claim C8. On every connection the worker only receives: it reads chunk after chunk
  until the empty one that marks the end of the stream (or until receiving fails),
  sends nothing, and closes the connection last, whether the payload decodes or not
  and whether the sink accepts the record or not.
\<close>

theorem worker_never_answers:
  "trace (handle_client lim now accepts conn col) = reads conn @ [Close] \<and>
   list_all (\<lambda>ev. \<not> is_send ev) (trace (handle_client lim now accepts conn col)) \<and>
   last (trace (handle_client lim now accepts conn col)) = Close"
  using reads_no_send [of _ conn]
  by (auto simp: handle_client_trace list_all_iff)

subsection \<open>Text that the decoder gives up on\<close>

lemma skip_ws_brackets: "skip_ws (replicate n 0x5B) = replicate n 0x5B"
  by (cases n) (simp_all add: skip_ws_def is_ws_def)

lemma parse_value_too_deep:
  "length st \<le> recursion_depth lim \<Longrightarrow> recursion_depth lim - length st < n \<Longrightarrow>
     parse_value lim st (replicate n 0x5B) = Inl RecursionError"
proof (induction n arbitrary: st)
  case 0
  then show ?case by simp
next
  case (Suc n)
  show ?case
  proof (cases "recursion_depth lim \<le> length st")
    case True
    then show ?thesis by simp
  next
    case False
    with Suc.prems obtain k where n: "n = Suc k"
      by (cases n) auto
    from False Suc.prems have "parse_value lim (FArr [] # st) (replicate n 0x5B) = Inl RecursionError"
      by (intro Suc.IH) auto
    with False show ?thesis
      using skip_ws_brackets [of n] by (simp add: n)
  qed
qed

lemma json_loads_too_deep:
  "recursion_depth lim < n \<Longrightarrow> json_loads lim (replicate n 0x5B) = Inl RecursionError"
  using parse_value_too_deep [of "[]" lim n] skip_ws_brackets [of n]
  by (cases n) (simp_all add: json_loads_def)

lemma utf8_decode_brackets: "utf8_decode (replicate n (CHR ''['')) = replicate n 0x5B"
  by (induction n) simp_all

lemma takeWhile_ones: "takeWhile is_digit (replicate k 0x31) = replicate k 0x31"
  by (induction k) (simp_all add: is_digit_def)

lemma dropWhile_ones: "dropWhile is_digit (replicate k 0x31) = []"
  by (induction k) (simp_all add: is_digit_def)

lemma match_number_long_int:
  assumes "int_too_long lim (Suc k)"
  shows "match_number lim (0x31 # replicate k 0x31) = Some (Inl ValueError)"
  using assms
  by (simp add: match_number_def number_int_def number_frac_def number_exp_def is_digit_def
        takeWhile_ones dropWhile_ones)

lemma json_loads_long_int:
  assumes "int_too_long lim n"
  shows "json_loads lim (replicate n 0x31) = Inl ValueError"
proof -
  from assms obtain k where n: "n = Suc k"
    by (cases n) (auto simp: int_too_long_def)
  have "scan_atom lim (0x31 # replicate k 0x31) = Inl ValueError"
    using match_number_long_int [of lim k] assms
    by (simp add: scan_atom_def asc_def n)
  then show ?thesis
    by (simp add: json_loads_def skip_ws_def is_ws_def n)
qed

lemma example_long_int: "json_loads example_limits (replicate 4301 0x31) = Inl ValueError"
  by (rule json_loads_long_int) (simp add: int_too_long_def example_limits_def)

section \<open>The properties at concrete inputs\<close>

lemmas text_eval = asc_def strip_def lstrip_def rstrip_def is_space_def

lemmas json_eval = json_loads_def skip_ws_def is_ws_def scan_key_def scan_atom_def
  match_number_def number_int_def number_frac_def number_exp_def is_digit_def digits_val_def
  hexval_def int_too_long_def example_limits_def

lemmas worker_eval = handle_client_def decode_payload_def make_doc_def or_empty_strip_def
  dict_get_def payload_field_def accept_all_def reject_all_def



lemma example_not_json:
  "json_loads example_limits (utf8_decode (concat [''not json''])) = Inl JSONDecodeError"
  by (simp add: json_eval text_eval)

theorem undecodable_payload_gives_empty_record_witness:
  "recv_loop [Bytes ''not json''] [] [] = (Inr [''not json''], [Recv ''not json'', Recv []]) \<and>
   (concat [''not json''] = [] \<or>
    json_loads example_limits (utf8_decode (concat [''not json''])) = Inl JSONDecodeError) \<and>
   raised (handle_client example_limits example_now accept_all [Bytes ''not json''] []) = None \<and>
   inserts (handle_client example_limits example_now accept_all [Bytes ''not json''] []) =
     [[(''date'', example_now), (''username'', []), (''message'', [])]] \<and>
   trace (handle_client example_limits example_now accept_all [Bytes ''not json''] []) =
     [Recv ''not json'', Recv []] @ [Close]"
proof -
  have a: "recv_loop [Bytes ''not json''] [] [] = (Inr [''not json''], [Recv ''not json'', Recv []])"
    by simp
  have b: "concat [''not json''] = [] \<or>
      json_loads example_limits (utf8_decode (concat [''not json''])) = Inl JSONDecodeError"
    using example_not_json by blast
  from undecodable_payload_gives_empty_record [OF a b, of example_now accept_all "[]"] a b
  show ?thesis by blast
qed

text \<open>
  The claim C4 as it is written fails for text that the decoder gives up on for
  another reason than its syntax. The payload of 1001 opening brackets is not a JSON
  document; with the recursion limit 1000 the decoder raises \<^verbatim>\<open>RecursionError\<close> at the
  latest at the last bracket, the worker does not catch it, and no record is built.
\<close>

theorem deep_nesting_counterexample:
  "json_loads example_limits (utf8_decode deep_payload) = Inl RecursionError \<and>
   raised (handle_client example_limits example_now accept_all [Bytes deep_payload] []) =
     Some RecursionError \<and>
   inserts (handle_client example_limits example_now accept_all [Bytes deep_payload] []) = [] \<and>
   collection (handle_client example_limits example_now accept_all [Bytes deep_payload] []) = []"
proof -
  have a: "json_loads example_limits (utf8_decode deep_payload) = Inl RecursionError"
    unfolding deep_payload_def utf8_decode_brackets
    by (rule json_loads_too_deep) (simp add: example_limits_def)
  have "deep_payload \<noteq> []" "utf8_decode deep_payload \<noteq> []"
    by (simp_all add: deep_payload_def utf8_decode_brackets)
  with a show ?thesis
    by (simp add: handle_client_def decode_payload_def)
qed

lemma example_run_rejected:
  "handle_client example_limits example_now reject_all [Bytes ''{}''] [] =
   \<lparr>raised = None, trace = [Recv ''{}'', Recv [], Close],
    inserts = [[(''date'', example_now), (''username'', []), (''message'', [])]],
    collection = []\<rparr>"
  by (simp add: worker_eval json_eval text_eval)

theorem insert_failure_is_discarded_witness:
  "[(''date'', example_now), (''username'', []), (''message'', [])]
     \<in> set (inserts (handle_client example_limits example_now reject_all [Bytes ''{}''] [])) \<and>
   \<not> reject_all [(''date'', example_now), (''username'', []), (''message'', [])] \<and>
   inserts (handle_client example_limits example_now reject_all [Bytes ''{}''] []) =
     [[(''date'', example_now), (''username'', []), (''message'', [])]] \<and>
   raised (handle_client example_limits example_now reject_all [Bytes ''{}''] []) = None \<and>
   collection (handle_client example_limits example_now reject_all [Bytes ''{}''] []) = [] \<and>
   handle_client example_limits example_now reject_all [Bytes ''{}''] [] =
     (handle_client example_limits example_now accept_all [Bytes ''{}''] [])\<lparr>collection := []\<rparr>"
proof -
  have a: "[(''date'', example_now), (''username'', []), (''message'', [])]
     \<in> set (inserts (handle_client example_limits example_now reject_all [Bytes ''{}''] []))"
    by (simp add: example_run_rejected)
  have b: "\<not> reject_all [(''date'', example_now), (''username'', []), (''message'', [])]"
    by (simp add: reject_all_def)
  from insert_failure_is_discarded [OF a b] a b show ?thesis by blast
qed

theorem worker_never_answers_witness:
  "trace (handle_client example_limits example_now accept_all
            [Bytes ''{}'', Bytes [], Bytes ''x''] []) =
     [Recv ''{}'', Recv [], Close] \<and>
   list_all (\<lambda>ev. \<not> is_send ev)
     (trace (handle_client example_limits example_now accept_all
               [Bytes ''{}'', Bytes [], Bytes ''x''] [])) \<and>
   last (trace (handle_client example_limits example_now accept_all
                  [Bytes ''{}'', Bytes [], Bytes ''x''] [])) = Close"
  using worker_never_answers [of example_limits example_now accept_all
          "[Bytes ''{}'', Bytes [], Bytes ''x'']" "[]"]
  by simp


subsection \<open>The payload is ASCII\<close>

lemma utf8_encode_ascii: "\<forall>c\<in>set s. c < 0x80 \<Longrightarrow> utf8_encode s = Some (map char_of s)"
  by (induction s) (simp_all add: encode_cp_def)


lemma hex_digit_ascii: "d < 16 \<Longrightarrow> hex_digit d < 0x80"
  by (simp add: hex_digit_def)

lemma u_escape_ascii: "\<forall>x\<in>set (u_escape n). x < 0x80"
  by (simp add: u_escape_def hex4_def hex_digit_ascii)

lemma escape_char_ascii: "\<forall>x\<in>set (escape_char c). x < 0x80"
  using u_escape_ascii by (auto simp: escape_char_def)

lemma encode_basestring_ascii_ascii: "\<forall>x\<in>set (encode_basestring_ascii s). x < 0x80"
  using escape_char_ascii by (auto simp: encode_basestring_ascii_def)

lemma dumps_item_ascii: "\<forall>x\<in>set (dumps_item kv). x < 0x80"
  using encode_basestring_ascii_ascii by (auto simp: dumps_item_def)

lemma join_ascii:
  "\<forall>x\<in>set sep. x < 0x80 \<Longrightarrow> \<forall>p\<in>set ps. \<forall>x\<in>set p. x < 0x80 \<Longrightarrow>
     \<forall>x\<in>set (join sep ps). x < (0x80 :: nat)"
  by (induction sep ps rule: join.induct) auto

lemma json_dumps_ascii: "\<forall>x\<in>set (json_dumps d). x < 0x80"
proof -
  have "\<forall>x\<in>set (join [0x2C, 0x20] (map dumps_item d)). x < 0x80"
    using dumps_item_ascii by (intro join_ascii) auto
  then show ?thesis by (auto simp: json_dumps_def)
qed


subsection \<open>The worker decodes what the Front Door serializes\<close>


lemma parse_value_escaped:
  assumes "\<forall>c\<in>set v. is_scalar c"
  shows "parse_value lim st (0x22 # concat (map escape_char v) @ 0x22 # t) =
         parse_after lim (JStr v) st t"
  using scanstring_escaped [OF assms] by simp




lemma set_strip: "set (strip s) \<subseteq> set s"
proof -
  have "set (rev (dropWhile is_space (rev t))) \<subseteq> set t" for t
    using set_dropWhileD [of _ is_space "rev t"] by auto
  moreover have "set (dropWhile is_space s) \<subseteq> set s"
    using set_dropWhileD [of _ is_space s] by auto
  ultimately show ?thesis
    unfolding strip_def lstrip_def rstrip_def by blast
qed







section \<open>The Front Door\<close>

lemma respond_404_page: "respond_404 e = not_found_page e"
  by (cases "fs e [''error.html'']")
     (simp_all add: respond_404.simps respond_file.simps exists_def error_path_def
        read_file_bytes_def not_found_page_def file_response_def)

lemma respond_file_cases:
  "respond_file e p code (Some (c # ct)) =
     (case fs e p of
        File d \<Rightarrow> Inr (file_response code (c # ct) d)
      | Missing \<Rightarrow> not_found_page e
      | Unreadable \<Rightarrow> Inl OSError)"
  by (cases "fs e p")
     (simp_all add: respond_file.simps read_file_bytes_def file_response_def respond_404_page)

text \<open>
  Claim C6. A \<^verbatim>\<open>GET\<close> of one of the five static targets answers with the content of
  its file and its content type (with the not-found page when the file is missing);
  every other \<^verbatim>\<open>GET\<close> target, and every \<^verbatim>\<open>POST\<close> to a target other than
  \<^verbatim>\<open>/message\<close>, answers with the not-found page: the content of \<^verbatim>\<open>error.html\<close> with
  status 404 when that file exists, the built-in 404 page otherwise. A \<^verbatim>\<open>POST\<close> to
  another target relays nothing.
\<close>

theorem routing:
  "(\<forall>p ct. static_file (path req) = Some (p, ct) \<longrightarrow>
      do_GET e req =
        (case fs e p of
           File d \<Rightarrow> Inr (file_response 200 ct d)
         | Missing \<Rightarrow> not_found_page e
         | Unreadable \<Rightarrow> Inl OSError)) \<and>
   (static_file (path req) = None \<longrightarrow> do_GET e req = not_found_page e) \<and>
   (path req \<noteq> asc ''/message'' \<longrightarrow> do_POST e n req = (not_found_page e, []))"
  by (auto simp: static_file_def do_GET_def do_POST_def respond_file_cases respond_404_page
           split: if_splits)

lemma utf8_encode_append:
  "utf8_encode (a @ b) =
     (case utf8_encode a of
        None \<Rightarrow> None
      | Some x \<Rightarrow> (case utf8_encode b of None \<Rightarrow> None | Some y \<Rightarrow> Some (x @ y)))"
  by (induction a) (auto split: option.splits)

lemma utf8_encode_asc:
  assumes "\<forall>c\<in>set s. (of_char c :: nat) < 0x80"
  shows "utf8_encode (asc s) = Some s"
proof -
  from assms have "\<forall>c\<in>set (asc s). c < 0x80"
    by (auto simp: asc_def)
  from utf8_encode_ascii [OF this] show ?thesis
    by (simp add: asc_def comp_def)
qed

lemma utf8_encode_error_prefix:
  "utf8_encode (asc ''Socket server error: '') = Some ''Socket server error: ''"
  by (rule utf8_encode_asc) simp

lemma do_POST_cases:
  "snd (do_POST e n req) = [] \<or> (\<exists>payload. do_POST e n req = send_payload n payload)"
  by (auto simp: do_POST_def Let_def split: option.splits sum.splits)

lemma snd_send_payload: "snd (send_payload n payload) = [payload]"
  by (auto simp: send_payload_def split: option.splits)

text \<open>
  Claim C3, as amended. The handler opens at most one connection for a request. When
  it has relayed a payload: if the relay succeeds the answer is the redirect 302 to
  \<^verbatim>\<open>/\<close>; if connecting or sending fails, the answer is 500 with the plain-text body
  \<^verbatim>\<open>Socket server error: \<close> followed by the reason (for a reason that UTF-8 can encode);
  and if the connection could not be made, the sink is unchanged.
\<close>

theorem relay_outcome:
  "length (snd (do_POST e n req)) \<le> 1 \<and>
   (snd (do_POST e n req) \<noteq> [] \<longrightarrow>
      (relay_error n = None \<longrightarrow>
         fst (do_POST e n req) = Inr (Response 302 [(''Location'', ''/'')] [])) \<and>
      (\<forall>msg body. relay_error n = Some msg \<and> utf8_encode msg = Some body \<longrightarrow>
         fst (do_POST e n req) =
           Inr (Response 500 [(''Content-Type'', ''text/plain; charset=utf-8'')]
                  (''Socket server error: '' @ body))) \<and>
      (\<forall>msg. n = Unreachable msg \<longrightarrow> snd (post_message e n lim now accepts req col) = col))"
proof (cases "snd (do_POST e n req) = []")
  case True
  then show ?thesis by simp
next
  case False
  with do_POST_cases [of e n req] obtain payload where
    p: "do_POST e n req = send_payload n payload" by blast
  have a: "relay_error n = None \<Longrightarrow>
      fst (send_payload n payload) = Inr (Response 302 [(''Location'', ''/'')] [])"
    by (simp add: send_payload_def)
  have b: "relay_error n = Some msg \<Longrightarrow> utf8_encode msg = Some body \<Longrightarrow>
      fst (send_payload n payload) =
        Inr (Response 500 [(''Content-Type'', ''text/plain; charset=utf-8'')]
               (''Socket server error: '' @ body))" for msg body
    by (simp add: send_payload_def utf8_encode_append utf8_encode_error_prefix)
  have c: "snd (post_message e (Unreachable msg) lim now accepts req col) = col"
    if "n = Unreachable msg" for msg
    using that p by (simp add: post_message_def snd_send_payload accepted_def)
  from a b c show ?thesis
    unfolding p snd_send_payload by auto
qed

lemma foldl_parse_qs_add:
  "foldl parse_qs_add d ps key =
     (if [snd p. p \<leftarrow> ps, fst p = key] = [] then d key
      else Some ((case d key of None \<Rightarrow> [] | Some vs \<Rightarrow> vs) @ [snd p. p \<leftarrow> ps, fst p = key]))"
proof (induction ps arbitrary: d)
  case Nil
  show ?case by simp
next
  case (Cons p ps)
  show ?case
    unfolding foldl_Cons Cons.IH
    by (cases "d (fst p)") (auto simp: parse_qs_add_def)
qed

lemma parse_qs_lookup:
  "parse_qs qs key =
     (if [snd p. p \<leftarrow> parse_qsl qs, fst p = key] = [] then None
      else Some [snd p. p \<leftarrow> parse_qsl qs, fst p = key])"
  unfolding parse_qs_def foldl_parse_qs_add by simp

lemma concat_map_filter_eq:
  "[snd p. p \<leftarrow> ps, fst p = key] = map snd (filter (\<lambda>p. fst p = key) ps)"
  by (induction ps) simp_all

lemma form_field_first_value:
  "form_field (parse_qs qs) key = Inr (strip (first_value (parse_qsl qs) key))"
  unfolding form_field_def dict_get_default_def parse_qs_lookup concat_map_filter_eq first_value_def
  by (cases "filter (\<lambda>p. fst p = key) (parse_qsl qs)") (simp_all add: index0_def)


lemma map_char_of_asc: "map char_of (asc s) = s"
  by (simp add: asc_def comp_def)

lemma do_POST_payload:
  assumes "path req = asc ''/message''"
    and "py_int (interp e) (case content_length req of None \<Rightarrow> ''0'' | Some h \<Rightarrow> h) = Some len"
    and "rfile_read (interp e) (rfile req) len = Inr raw"
  shows "do_POST e n req =
           send_payload n
             (submission_payload
                (strip (first_value (parse_qsl (utf8_decode raw)) (asc ''username'')))
                (strip (first_value (parse_qsl (utf8_decode raw)) (asc ''message''))))"
  using assms
  by (simp add: do_POST_def Let_def form_field_first_value submission_payload_def
        utf8_encode_ascii [OF json_dumps_ascii])

lemma do_POST_unread:
  assumes "path req = asc ''/message''"
    and "py_int (interp e) (case content_length req of None \<Rightarrow> ''0'' | Some h \<Rightarrow> h) = Some len"
    and "rfile_read (interp e) (rfile req) len = Inl x"
  shows "do_POST e n req = (Inl x, [])"
  using assms by (simp add: do_POST_def)

lemma py_int_zero: "py_int lim ''0'' = Some 0"
  by (simp add: py_int_def int_space_def is_digit_char_def int_too_long_def)

lemma py_int_twenty: "py_int lim ''20'' = Some 20"
  by (simp add: py_int_def int_space_def is_digit_char_def int_too_long_def)

lemma rfile_read_readable:
  assumes "0 \<le> len"
  shows "rfile_read lim stream len =
           (if readable lim len then Inr (take (nat len) stream)
            else if int (max_size lim) < len \<or> int (max_bytes lim) < len then Inl OverflowError
            else Inl MemoryError)"
  using assms by (auto simp: rfile_read_def readable_def)

lemma rfile_read_zero: "rfile_read lim stream 0 = Inr []"
  by (simp add: rfile_read_def)

lemma submission_payload_empty:
  \<open>submission_payload [] [] = ''{"username": "", "message": ""}''\<close>
proof -
  have \<open>json_dumps [(asc ''username'', []), (asc ''message'', [])] =
      asc ''{"username": "", "message": ""}''\<close>
    by (simp add: json_dumps_def dumps_item_def encode_basestring_ascii_def escape_char_def asc_def)
  then show ?thesis
    by (simp only: submission_payload_def map_char_of_asc)
qed

lemma submission_payload_ab:
  \<open>submission_payload (asc ''a'') (asc ''b'') = ''{"username": "a", "message": "b"}''\<close>
proof -
  have \<open>json_dumps [(asc ''username'', asc ''a''), (asc ''message'', asc ''b'')] =
      asc ''{"username": "a", "message": "b"}''\<close>
    by (simp add: json_dumps_def dumps_item_def encode_basestring_ascii_def escape_char_def asc_def)
  then show ?thesis
    by (simp only: submission_payload_def map_char_of_asc)
qed

text \<open>
  Claim C9. A \<^verbatim>\<open>POST\<close> to \<^verbatim>\<open>/message\<close> without a \<^verbatim>\<open>Content-Length\<close> header reads
  no body, whatever the client sends after the headers: both fields are empty, the
  payload \<^verbatim>\<open>{"username": "", "message": ""}\<close> is handed to the relay, and when the
  relay succeeds the answer is the redirect 302 to \<^verbatim>\<open>/\<close>.
\<close>

theorem post_without_content_length:
  assumes "path req = asc ''/message''" and "content_length req = None"
  shows \<open>snd (do_POST e n req) = [''{"username": "", "message": ""}''] \<and>
         (relay_error n = None \<longrightarrow>
            fst (do_POST e n req) = Inr (Response 302 [(''Location'', ''/'')] []))\<close>
proof -
  have len: "py_int (interp e) (case content_length req of None \<Rightarrow> ''0'' | Some h \<Rightarrow> h) = Some 0"
    using assms(2) by (simp add: py_int_zero)
  have rd: "rfile_read (interp e) (rfile req) 0 = Inr []"
    by (rule rfile_read_zero)
  have "do_POST e n req = send_payload n (submission_payload [] [])"
    using do_POST_payload [OF assms(1) len rd, of n]
    by (simp add: parse_qsl_def first_value_def strip_Nil)
  then show ?thesis
    by (simp add: submission_payload_empty snd_send_payload) (simp add: send_payload_def)
qed

theorem post_without_content_length_witness:
  \<open>path post_bare = asc ''/message'' \<and> content_length post_bare = None \<and>
   snd (do_POST no_files Reachable post_bare) = [''{"username": "", "message": ""}''] \<and>
   relay_error Reachable = None \<and>
   fst (do_POST no_files Reachable post_bare) = Inr (Response 302 [(''Location'', ''/'')] [])\<close>
proof -
  have a: "path post_bare = asc ''/message''" and b: "content_length post_bare = None"
    by (simp_all add: post_bare_def)
  from post_without_content_length [OF a b, of no_files Reachable] a b show ?thesis
    by simp
qed

lemma readable_example: "readable (interp no_files) 20" "readable (interp no_files) 22"
  by (simp_all add: readable_def no_files_def example_limits_def)

lemma do_POST_post_ab:
  "do_POST no_files n post_ab = send_payload n (submission_payload (asc ''a'') (asc ''b''))"
proof -
  have a: "path post_ab = asc ''/message''"
    by (simp add: post_ab_def)
  have b: "py_int (interp no_files) (case content_length post_ab of None \<Rightarrow> ''0'' | Some h \<Rightarrow> h)
      = Some 20"
    by (simp add: post_ab_def py_int_twenty)
  have c: "rfile_read (interp no_files) (rfile post_ab) 20 = Inr ''username=a&message=b''"
    by (simp add: post_ab_def rfile_read_readable readable_example)
  have d: "parse_qsl (utf8_decode ''username=a&message=b'') =
      [(asc ''username'', asc ''a''), (asc ''message'', asc ''b'')]"
    by (simp add: parse_qsl_def partition_eq_def unquote_plus_def unquote_def asc_def)
  show ?thesis
    unfolding do_POST_payload [OF a b c] d
    by (simp add: first_value_def text_eval)
qed

theorem relay_outcome_witness:
  "length (snd (do_POST no_files (Unreachable (asc ''refused'')) post_ab)) \<le> 1 \<and>
   snd (do_POST no_files (Unreachable (asc ''refused'')) post_ab) \<noteq> [] \<and>
   relay_error (Unreachable (asc ''refused'')) = Some (asc ''refused'') \<and>
   utf8_encode (asc ''refused'') = Some ''refused'' \<and>
   fst (do_POST no_files (Unreachable (asc ''refused'')) post_ab) =
     Inr (Response 500 [(''Content-Type'', ''text/plain; charset=utf-8'')]
            (''Socket server error: '' @ ''refused'')) \<and>
   snd (post_message no_files (Unreachable (asc ''refused'')) example_limits example_now
          accept_all post_ab []) = [] \<and>
   fst (do_POST no_files Reachable post_ab) = Inr (Response 302 [(''Location'', ''/'')] [])"
proof -
  have a: "snd (do_POST no_files n post_ab) \<noteq> []" for n
    by (simp add: do_POST_post_ab snd_send_payload)
  have b: "utf8_encode (asc ''refused'') = Some ''refused''"
    by (rule utf8_encode_asc) simp
  from relay_outcome [of no_files "Unreachable (asc ''refused'')" post_ab
                         example_limits example_now accept_all "[]"]
       relay_outcome [of no_files Reachable post_ab example_limits example_now accept_all "[]"] a b
  show ?thesis by simp
qed

text \<open>
  Claim C3 as stated fails when the connection is made and sending breaks off: the
  browser gets the 500, and the worker, which reads the five bytes that went out and
  then the end of the stream, stores a record with empty fields.
\<close>

theorem broken_relay_counterexample:
  "post_message no_files (Broken 5 (asc ''timed out'')) example_limits example_now
      accept_all post_ab [] =
     (Inr (Response 500 [(''Content-Type'', ''text/plain; charset=utf-8'')]
             ''Socket server error: timed out''),
      [[(''date'', example_now), (''username'', []), (''message'', [])]])"
proof -
  have enc: "utf8_encode (asc ''Socket server error: '' @ asc ''timed out'') =
      Some ''Socket server error: timed out''"
    using utf8_encode_asc [of "''Socket server error: timed out''"] by (simp add: asc_def)
  have run: \<open>collection (handle_client example_limits example_now accept_all
                             [Bytes ''{"use''] []) =
      [[(''date'', example_now), (''username'', []), (''message'', [])]]\<close>
    by (simp add: worker_eval json_eval text_eval)
  show ?thesis
    unfolding post_message_def do_POST_post_ab submission_payload_ab
    by (simp add: send_payload_def enc accepted_def run)
qed

theorem routing_witness:
  "static_file (path get_style) = Some ([''static'', ''style.css''], ''text/css; charset=utf-8'') \<and>
   do_GET site get_style = Inr (file_response 200 ''text/css; charset=utf-8'' ''body {}'') \<and>
   static_file (path get_other) = None \<and>
   do_GET site get_other = Inr (file_response 404 ''text/html; charset=utf-8'' ''<h1>404</h1>'') \<and>
   do_GET no_files get_other = Inr (SendError 404 ''Not Found'') \<and>
   path get_other \<noteq> asc ''/message'' \<and>
   do_POST site Reachable get_other =
     (Inr (file_response 404 ''text/html; charset=utf-8'' ''<h1>404</h1>''), [])"
proof -
  have a: "static_file (path get_style) =
      Some ([''static'', ''style.css''], ''text/css; charset=utf-8'')"
    by (simp add: get_style_def static_file_def asc_def)
  have b: "static_file (path get_other) = None"
    by (simp add: get_other_def static_file_def asc_def)
  have c: "path get_other \<noteq> asc ''/message''"
    by (simp add: get_other_def asc_def)
  have d: "not_found_page site = Inr (file_response 404 ''text/html; charset=utf-8'' ''<h1>404</h1>'')"
    "not_found_page no_files = Inr (SendError 404 ''Not Found'')"
    "fs site [''static'', ''style.css''] = File ''body {}''"
    by (simp_all add: not_found_page_def site_def no_files_def)
  from routing [of get_style site Reachable] routing [of get_other site Reachable]
       routing [of get_other no_files Reachable] a b c d
  show ?thesis by simp
qed


subsection \<open>The form fields\<close>

lemma utf8_decode_Nil: "utf8_decode bs = [] \<longleftrightarrow> bs = []"
  by (cases bs) (auto simp: Let_def split: list.splits)

lemma unquote_to_bytes_Nil: "unquote_to_bytes s = [] \<longleftrightarrow> s = []"
  by (cases s) (auto split: list.splits option.splits)

lemma unquote_parts_Nil: "unquote_parts s = [] \<longleftrightarrow> s = []"
proof (cases s)
  case Nil
  then show ?thesis by simp
next
  case (Cons c cs)
  have "utf8_decode (unquote_to_bytes (c # takeWhile is_ascii cs)) \<noteq> []"
    unfolding utf8_decode_Nil unquote_to_bytes_Nil by simp
  with Cons show ?thesis
    by (simp del: unquote_to_bytes.simps)
qed

lemma unquote_plus_Nil: "unquote_plus s = [] \<longleftrightarrow> s = []"
  by (auto simp: unquote_plus_def unquote_def unquote_parts_Nil)

lemma comprehension_filter:
  "concat (map (\<lambda>x. if P x then if Q x then [f x] else [] else []) xs) =
     map f (filter (\<lambda>x. P x \<and> Q x) xs)"
  by (induction xs) simp_all

lemma parse_qsl_form_pairs: "parse_qsl qs = filter (\<lambda>p. snd p \<noteq> []) (form_pairs qs)"
proof (cases "qs = []")
  case True
  then show ?thesis by (simp add: parse_qsl_def form_pairs_def)
next
  case False
  then show ?thesis
    by (simp add: parse_qsl_def form_pairs_def comprehension_filter filter_map comp_def
          unquote_plus_Nil)
qed

text \<open>
  Claim C2, as amended. For a \<^verbatim>\<open>POST\<close> to \<^verbatim>\<open>/message\<close> whose \<^verbatim>\<open>Content-Length\<close> is
  a number \<open>len \<ge> 0\<close>, the handler reads the first \<open>len\<close> bytes after the headers as
  URL-encoded form data, takes for \<^verbatim>\<open>username\<close> and for \<^verbatim>\<open>message\<close> the first value
  that is not blank among the pairs with that name (the empty string without one),
  trims both, and hands the JSON text of exactly these two fields to the relay, once;
  the text is one line of printable ASCII characters (\<open>submission_payload_printable\<close>
  below). This is so for every length that the reader can serve; for a length beyond
  that the handler raises and relays nothing.
\<close>

theorem post_payload:
  assumes "path req = asc ''/message''"
    and "py_int (interp e) (case content_length req of None \<Rightarrow> ''0'' | Some h \<Rightarrow> h) = Some len"
    and "0 \<le> len"
  shows "snd (do_POST e n req) =
           (if readable (interp e) len then
              [submission_payload
                 (strip (first_value
                    (filter (\<lambda>p. snd p \<noteq> []) (form_pairs (utf8_decode (take (nat len) (rfile req)))))
                    (asc ''username'')))
                 (strip (first_value
                    (filter (\<lambda>p. snd p \<noteq> []) (form_pairs (utf8_decode (take (nat len) (rfile req)))))
                    (asc ''message'')))]
            else [])"
proof (cases "readable (interp e) len")
  case True
  with assms(3) have rd:
    "rfile_read (interp e) (rfile req) len = Inr (take (nat len) (rfile req))"
    by (simp add: rfile_read_readable)
  show ?thesis
    unfolding do_POST_payload [OF assms(1,2) rd] snd_send_payload parse_qsl_form_pairs
    using True by simp
next
  case False
  with assms(3) have "\<exists>x. rfile_read (interp e) (rfile req) len = Inl x"
    by (simp add: rfile_read_readable)
  then obtain x where "rfile_read (interp e) (rfile req) len = Inl x" ..
  from do_POST_unread [OF assms(1,2) this] False show ?thesis
    by simp
qed

theorem post_payload_witness:
  "path post_ab = asc ''/message'' \<and>
   py_int (interp no_files) (case content_length post_ab of None \<Rightarrow> ''0'' | Some h \<Rightarrow> h) = Some 20 \<and>
   (0 :: int) \<le> 20 \<and>
   readable (interp no_files) 20 \<and>
   snd (do_POST no_files Reachable post_ab) =
     [submission_payload
        (strip (first_value
           (filter (\<lambda>p. snd p \<noteq> []) (form_pairs (utf8_decode (take (nat 20) (rfile post_ab)))))
           (asc ''username'')))
        (strip (first_value
           (filter (\<lambda>p. snd p \<noteq> []) (form_pairs (utf8_decode (take (nat 20) (rfile post_ab)))))
           (asc ''message'')))]"
proof -
  have a: "path post_ab = asc ''/message''"
    by (simp add: post_ab_def)
  have b: "py_int (interp no_files) (case content_length post_ab of None \<Rightarrow> ''0'' | Some h \<Rightarrow> h)
      = Some 20"
    by (simp add: post_ab_def py_int_twenty)
  have c: "(0 :: int) \<le> 20" by simp
  from post_payload [OF a b c, of Reachable] a b c readable_example(1) show ?thesis
    by simp
qed

text \<open>
  A length that does not fit an index: the handler raises and relays nothing.
\<close>

lemma example_post_huge: "do_POST no_files n post_huge = (Inl OverflowError, [])"
proof -
  have a: "path post_huge = asc ''/message''"
    by (simp add: post_huge_def)
  have b: "py_int (interp no_files) (case content_length post_huge of None \<Rightarrow> ''0'' | Some h \<Rightarrow> h)
      = Some 99999999999999999999"
    by (simp add: post_huge_def py_int_def int_space_def is_digit_char_def int_too_long_def)
  have c: "rfile_read (interp no_files) (rfile post_huge) 99999999999999999999 = Inl OverflowError"
    by (simp add: rfile_read_def no_files_def example_limits_def)
  from do_POST_unread [OF a b c] show ?thesis .
qed

text \<open>
  Claim C2 as stated fails on a repeated key whose first value is blank: the form
  parser drops pairs with a blank value, so the handler relays the second value,
  where the first value is the empty string.
\<close>

theorem first_value_counterexample:
  \<open>snd (do_POST no_files Reachable post_blank_first) = [''{"username": "bob", "message": ""}''] \<and>
   form_pairs (utf8_decode (rfile post_blank_first)) =
     [(asc ''username'', []), (asc ''username'', asc ''bob'')] \<and>
   submission_payload
     (strip (first_value (form_pairs (utf8_decode (rfile post_blank_first))) (asc ''username'')))
     (strip (first_value (form_pairs (utf8_decode (rfile post_blank_first))) (asc ''message'')))
     = ''{"username": "", "message": ""}''\<close>
proof -
  have a: "path post_blank_first = asc ''/message''"
    by (simp add: post_blank_first_def)
  have b: "py_int (interp no_files)
      (case content_length post_blank_first of None \<Rightarrow> ''0'' | Some h \<Rightarrow> h) = Some 22"
    by (simp add: post_blank_first_def py_int_def int_space_def is_digit_char_def int_too_long_def)
  have c: "rfile_read (interp no_files) (rfile post_blank_first) 22 = Inr ''username=&username=bob''"
    by (simp add: post_blank_first_def rfile_read_readable readable_example)
  have fp: "form_pairs (utf8_decode ''username=&username=bob'') =
      [(asc ''username'', []), (asc ''username'', asc ''bob'')]"
    by (simp add: form_pairs_def partition_eq_def unquote_plus_def unquote_def asc_def)
  have pq: "parse_qsl (utf8_decode ''username=&username=bob'') = [(asc ''username'', asc ''bob'')]"
    unfolding parse_qsl_form_pairs fp by (simp add: asc_def)
  have \<open>json_dumps [(asc ''username'', asc ''bob''), (asc ''message'', [])] =
      asc ''{"username": "bob", "message": ""}''\<close>
    by (simp add: json_dumps_def dumps_item_def encode_basestring_ascii_def escape_char_def asc_def)
  then have bob: \<open>submission_payload (asc ''bob'') [] = ''{"username": "bob", "message": ""}''\<close>
    by (simp only: submission_payload_def map_char_of_asc)
  have code: \<open>snd (do_POST no_files Reachable post_blank_first) =
      [''{"username": "bob", "message": ""}'']\<close>
    unfolding do_POST_payload [OF a b c] snd_send_payload pq
    by (simp add: first_value_def text_eval bob [unfolded asc_def, simplified])
  have claim: \<open>submission_payload
     (strip (first_value (form_pairs (utf8_decode ''username=&username=bob'')) (asc ''username'')))
     (strip (first_value (form_pairs (utf8_decode ''username=&username=bob'')) (asc ''message'')))
     = ''{"username": "", "message": ""}''\<close>
    unfolding fp by (simp add: first_value_def strip_Nil submission_payload_empty asc_def)
  from code fp claim show ?thesis
    by (simp add: post_blank_first_def)
qed

subsection \<open>The strings of the Front Door are strings of scalar values\<close>

lemma utf8_decode_step:
  "\<exists>x r. is_scalar x \<and> length r \<le> length bs \<and>
     (utf8_decode (b # bs) = [x] \<or> utf8_decode (b # bs) = x # utf8_decode r)"
proof -
  have s: "is_scalar 0xFFFD"
    by (simp add: is_scalar_def)
  define c where "c = (of_char b :: nat)"
  consider (one) "c < 0x80" | (bad) "0x80 \<le> c" "c < 0xC2" | (two) "0xC2 \<le> c" "c < 0xE0"
    | (three) "0xE0 \<le> c" "c < 0xF0" | (four) "0xF0 \<le> c" "c < 0xF5" | (high) "0xF5 \<le> c"
    by linarith
  then show ?thesis
  proof cases
    case one
    then have "is_scalar c" by (simp add: is_scalar_def)
    with one show ?thesis
      by (intro exI [of _ c] exI [of _ bs]) (simp add: c_def)
  next
    case bad
    with s show ?thesis
      by (intro exI [of _ "0xFFFD"] exI [of _ bs]) (simp add: c_def)
  next
    case high
    with s show ?thesis
      by (intro exI [of _ "0xFFFD"] exI [of _ bs]) (simp add: c_def)
  next
    case two
    show ?thesis
    proof (cases bs)
      case Nil
      with two s show ?thesis
        by (intro exI [of _ "0xFFFD"] exI [of _ bs]) (simp add: c_def)
    next
      case (Cons b2 r2)
      show ?thesis
      proof (cases "is_cont b2")
        case True
        then have "low6 b2 < 64" by (auto simp: is_cont_def low6_def)
        moreover from two have "c - 0xC0 \<le> 31" by simp
        ultimately have "(c - 0xC0) * 64 + low6 b2 < 0xD800" by linarith
        then have "is_scalar ((c - 0xC0) * 64 + low6 b2)"
          by (simp add: is_scalar_def)
        with two Cons True show ?thesis
          by (intro exI [of _ "(c - 0xC0) * 64 + low6 b2"] exI [of _ r2]) (simp add: c_def)
      next
        case False
        with two Cons s show ?thesis
          by (intro exI [of _ "0xFFFD"] exI [of _ bs]) (simp add: c_def)
      qed
    qed
  next
    case three
    show ?thesis
    proof (cases bs)
      case Nil
      with three s show ?thesis
        by (intro exI [of _ "0xFFFD"] exI [of _ bs]) (simp add: c_def)
    next
      case b2: (Cons b2 r2)
      show ?thesis
      proof (cases "second_ok c b2")
        case False
        with three b2 s show ?thesis
          by (intro exI [of _ "0xFFFD"] exI [of _ bs]) (simp add: c_def)
      next
        case ok: True
        show ?thesis
        proof (cases r2)
          case Nil
          with three b2 ok s show ?thesis
            by (intro exI [of _ "0xFFFD"] exI [of _ bs]) (simp add: c_def)
        next
          case b3: (Cons b3 r3)
          show ?thesis
          proof (cases "is_cont b3")
            case False
            with three b2 b3 ok s show ?thesis
              by (intro exI [of _ "0xFFFD"] exI [of _ r2]) (simp add: c_def)
          next
            case True
            then have l3: "low6 b3 < 64" by (auto simp: is_cont_def low6_def)
            from ok have l2: "low6 b2 < 64" "c = 0xED \<longrightarrow> low6 b2 < 32"
              by (auto simp: second_ok_def is_cont_def low6_def)
            define k where "k = c - 0xE0"
            have k: "c = 0xE0 + k" "k \<le> 15" using three by (simp_all add: k_def)
            consider "k \<le> 12" | "k = 13" | "14 \<le> k" by linarith
            then have "k * 4096 + low6 b2 * 64 + low6 b3 < 0xD800 \<or>
                (0xE000 \<le> k * 4096 + low6 b2 * 64 + low6 b3 \<and>
                 k * 4096 + low6 b2 * 64 + low6 b3 < 0x110000)"
            proof cases
              case 1
              with l2 l3 show ?thesis by linarith
            next
              case 2
              with k l2(2) have "low6 b2 < 32" by simp
              with 2 l3 show ?thesis by linarith
            next
              case 3
              with k l2 l3 show ?thesis by linarith
            qed
            then have "is_scalar ((c - 0xE0) * 4096 + low6 b2 * 64 + low6 b3)"
              unfolding is_scalar_def k_def .
            with three b2 b3 ok True show ?thesis
              by (intro exI [of _ "(c - 0xE0) * 4096 + low6 b2 * 64 + low6 b3"] exI [of _ r3])
                 (simp add: c_def)
          qed
        qed
      qed
    qed
  next
    case four
    show ?thesis
    proof (cases bs)
      case Nil
      with four s show ?thesis
        by (intro exI [of _ "0xFFFD"] exI [of _ bs]) (simp add: c_def)
    next
      case b2: (Cons b2 r2)
      show ?thesis
      proof (cases "second_ok c b2")
        case False
        with four b2 s show ?thesis
          by (intro exI [of _ "0xFFFD"] exI [of _ bs]) (simp add: c_def)
      next
        case ok: True
        show ?thesis
        proof (cases r2)
          case Nil
          with four b2 ok s show ?thesis
            by (intro exI [of _ "0xFFFD"] exI [of _ bs]) (simp add: c_def)
        next
          case b3: (Cons b3 r3)
          show ?thesis
          proof (cases "is_cont b3")
            case False
            with four b2 b3 ok s show ?thesis
              by (intro exI [of _ "0xFFFD"] exI [of _ r2]) (simp add: c_def)
          next
            case c3: True
            show ?thesis
            proof (cases r3)
              case Nil
              with four b2 b3 ok c3 s show ?thesis
                by (intro exI [of _ "0xFFFD"] exI [of _ bs]) (simp add: c_def)
            next
              case b4: (Cons b4 r4)
              show ?thesis
              proof (cases "is_cont b4")
                case False
                with four b2 b3 b4 ok c3 s show ?thesis
                  by (intro exI [of _ "0xFFFD"] exI [of _ r3]) (simp add: c_def)
              next
                case True
                then have l4: "low6 b4 < 64" by (auto simp: is_cont_def low6_def)
                from c3 have l3: "low6 b3 < 64" by (auto simp: is_cont_def low6_def)
                from ok have l2: "low6 b2 < 64" "c = 0xF4 \<longrightarrow> low6 b2 < 16"
                  "c = 0xF0 \<longrightarrow> 16 \<le> low6 b2"
                  by (auto simp: second_ok_def is_cont_def low6_def)
                define k where "k = c - 0xF0"
                have k: "c = 0xF0 + k" "k \<le> 4" using four by (simp_all add: k_def)
                consider "k = 0" | "1 \<le> k" "k \<le> 3" | "k = 4" using k(2) by linarith
                then have "k * 262144 + low6 b2 * 4096 + low6 b3 * 64 + low6 b4 < 0xD800 \<or>
                    (0xE000 \<le> k * 262144 + low6 b2 * 4096 + low6 b3 * 64 + low6 b4 \<and>
                     k * 262144 + low6 b2 * 4096 + low6 b3 * 64 + low6 b4 < 0x110000)"
                proof cases
                  case 1
                  with k l2(3) have "16 \<le> low6 b2" by simp
                  with 1 l2(1) l3 l4 show ?thesis by linarith
                next
                  case 2
                  with l2(1) l3 l4 show ?thesis by linarith
                next
                  case 3
                  with k l2(2) have "low6 b2 < 16" by simp
                  with 3 l3 l4 show ?thesis by linarith
                qed
                then have "is_scalar ((c - 0xF0) * 262144 + low6 b2 * 4096 + low6 b3 * 64 + low6 b4)"
                  unfolding is_scalar_def k_def .
                with four b2 b3 b4 ok c3 True show ?thesis
                  by (intro exI [of _ "(c - 0xF0) * 262144 + low6 b2 * 4096 + low6 b3 * 64 + low6 b4"]
                        exI [of _ r4])
                     (simp add: c_def)
              qed
            qed
          qed
        qed
      qed
    qed
  qed
qed

lemma utf8_decode_scalar: "\<forall>c\<in>set (utf8_decode bs). is_scalar c"
proof (induction "length bs" arbitrary: bs rule: less_induct)
  case less
  show ?case
  proof (cases bs)
    case Nil
    then show ?thesis by simp
  next
    case (Cons b t)
    from utf8_decode_step [of t b] obtain x r where
      x: "is_scalar x" and r: "length r \<le> length t" and
      d: "utf8_decode (b # t) = [x] \<or> utf8_decode (b # t) = x # utf8_decode r"
      by blast
    from r Cons have "\<forall>c\<in>set (utf8_decode r). is_scalar c"
      by (intro less) simp
    with x d Cons show ?thesis by auto
  qed
qed

lemma unquote_parts_scalar:
  "\<forall>c\<in>set s. is_scalar c \<Longrightarrow> \<forall>c\<in>set (unquote_parts s). is_scalar c"
proof (induction s rule: unquote_parts.induct)
  case 1
  show ?case by simp
next
  case (2 c cs)
  show ?case
  proof (cases "is_ascii c")
    case True
    have "set (dropWhile is_ascii cs) \<subseteq> set cs"
      using set_dropWhileD [of _ is_ascii cs] by auto
    with "2.prems" have "\<forall>x\<in>set (dropWhile is_ascii cs). is_scalar x" by auto
    from "2.IH"(1) [OF True this]
      utf8_decode_scalar [of "unquote_to_bytes (c # takeWhile is_ascii cs)"] True
    show ?thesis
      by (auto simp del: unquote_to_bytes.simps utf8_decode.simps)
  next
    case False
    with "2.prems" "2.IH"(2) show ?thesis by simp
  qed
qed

lemma unquote_plus_scalar:
  assumes "\<forall>c\<in>set s. is_scalar c"
  shows "\<forall>c\<in>set (unquote_plus s). is_scalar c"
proof -
  have "is_scalar 0x20" by (simp add: is_scalar_def)
  with assms have m: "\<forall>c\<in>set (map (\<lambda>c. if c = 0x2B then 0x20 else c) s). is_scalar c"
    by auto
  from unquote_parts_scalar [OF m] m show ?thesis
    by (simp add: unquote_plus_def unquote_def)
qed

lemma set_split: "p \<in> set (split sep s) \<Longrightarrow> set p \<subseteq> set s"
proof (induction s arbitrary: p)
  case Nil
  then show ?case by simp
next
  case (Cons c s)
  show ?case
  proof (cases "c = sep")
    case True
    with Cons show ?thesis by auto
  next
    case False
    show ?thesis
    proof (cases "split sep s")
      case Nil
      with Cons.prems False show ?thesis by simp
    next
      case (Cons q qs)
      with Cons.prems False have "p = c # q \<or> p \<in> set qs" by simp
      with Cons Cons.IH [of q] Cons.IH [of p] show ?thesis by auto
    qed
  qed
qed

lemma set_partition_eq:
  "set (fst (partition_eq s)) \<subseteq> set s" "set (snd (partition_eq s)) \<subseteq> set s"
proof -
  show "set (fst (partition_eq s)) \<subseteq> set s"
    using set_takeWhileD [of _ "\<lambda>c. c \<noteq> 0x3D" s] by (auto simp: partition_eq_def)
  have d: "set (dropWhile (\<lambda>c. c \<noteq> 0x3D) s) \<subseteq> set s"
    using set_dropWhileD [of _ "\<lambda>c. c \<noteq> 0x3D" s] by auto
  show "set (snd (partition_eq s)) \<subseteq> set s"
  proof (cases "dropWhile (\<lambda>c. c \<noteq> 0x3D) s")
    case Nil
    show ?thesis unfolding partition_eq_def Nil by simp
  next
    case (Cons e v)
    with d have "set v \<subseteq> set s" by simp
    then show ?thesis unfolding partition_eq_def Cons by simp
  qed
qed

lemma form_pairs_scalar:
  assumes "\<forall>c\<in>set qs. is_scalar c" and "p \<in> set (form_pairs qs)"
  shows "\<forall>c\<in>set (snd p). is_scalar c"
proof -
  from assms(2) obtain nv where nv: "nv \<in> set (split 0x26 qs)" and
    p: "snd p = unquote_plus (snd (partition_eq nv))"
    by (auto simp: form_pairs_def)
  from set_split [OF nv] set_partition_eq(2) [of nv] assms(1)
  have "\<forall>c\<in>set (snd (partition_eq nv)). is_scalar c" by blast
  from unquote_plus_scalar [OF this] show ?thesis by (simp add: p)
qed

lemma first_value_scalar:
  assumes "\<forall>p\<in>set ps. \<forall>c\<in>set (snd p). is_scalar c"
  shows "\<forall>c\<in>set (first_value ps key). is_scalar c"
proof (cases "filter (\<lambda>p. fst p = key) ps")
  case Nil
  then show ?thesis by (simp add: first_value_def)
next
  case (Cons p r)
  then have "p \<in> set (filter (\<lambda>p. fst p = key) ps)" by simp
  then have "p \<in> set ps" by simp
  with assms Cons show ?thesis by (simp add: first_value_def)
qed

lemma form_field_scalar:
  assumes "form_field (parse_qs (utf8_decode raw)) key = Inr v"
  shows "\<forall>c\<in>set v. is_scalar c"
proof -
  have "\<forall>p\<in>set (parse_qsl (utf8_decode raw)). \<forall>c\<in>set (snd p). is_scalar c"
    unfolding parse_qsl_form_pairs
    using form_pairs_scalar [OF utf8_decode_scalar] by auto
  from first_value_scalar [OF this, of key] set_strip assms show ?thesis
    unfolding form_field_first_value by blast
qed

subsection \<open>The payload is one line of printable characters\<close>

lemma hex_digit_printable: "d < 16 \<Longrightarrow> printable (hex_digit d)"
  by (simp add: hex_digit_def printable_def)

lemma u_escape_printable: "list_all printable (u_escape n)"
  by (simp add: u_escape_def hex4_def hex_digit_printable) (simp add: printable_def)

lemma escape_char_printable: "list_all printable (escape_char c)"
proof -
  have a: "list_all printable [0x5C, x]" if "printable x" for x
    using that by (simp add: printable_def)
  have b: "printable 0x22" "printable 0x5C" "printable 0x6E" "printable 0x72"
    "printable 0x74" "printable 0x66" "printable 0x62"
    by (simp_all add: printable_def)
  show ?thesis
  proof (cases "0x20 \<le> c \<and> c \<le> 0x7E")
    case True
    then have "list_all printable [c]" by (simp add: printable_def)
    with a b show ?thesis
      unfolding escape_char_def by (simp only: if_P [OF True] list_all_append split: if_split) simp
  next
    case False
    with a b u_escape_printable show ?thesis
      unfolding escape_char_def by (simp only: if_not_P [OF False] list_all_append split: if_split) simp
  qed
qed

lemma encode_basestring_ascii_printable: "list_all printable (encode_basestring_ascii s)"
proof -
  have "list_all printable (concat (map escape_char s))"
    by (induction s) (simp_all add: escape_char_printable)
  moreover have "printable 0x22" by (simp add: printable_def)
  ultimately show ?thesis by (simp add: encode_basestring_ascii_def)
qed

lemma dumps_item_printable: "list_all printable (dumps_item kv)"
proof -
  have "printable 0x3A" "printable 0x20" by (simp_all add: printable_def)
  then show ?thesis by (simp add: dumps_item_def encode_basestring_ascii_printable)
qed

lemma join_printable:
  "list_all printable sep \<Longrightarrow> list_all (list_all printable) ps \<Longrightarrow>
     list_all printable (join sep ps)"
  by (induction sep ps rule: join.induct) simp_all

lemma json_dumps_printable: "list_all printable (json_dumps d)"
proof -
  have p: "printable 0x2C" "printable 0x20" "printable 0x7B" "printable 0x7D"
    by (simp_all add: printable_def)
  have "list_all (list_all printable) (map dumps_item d)"
    by (induction d) (simp_all add: dumps_item_printable)
  with p have "list_all printable (join [0x2C, 0x20] (map dumps_item d))"
    by (intro join_printable) simp_all
  with p show ?thesis by (simp add: json_dumps_def)
qed

lemma submission_payload_printable:
  "list_all (\<lambda>b. printable (of_char b)) (submission_payload u m)"
proof -
  have "(of_char (char_of x :: char) :: nat) = x" if "printable x" for x
    using that by (simp add: printable_def)
  then have "list_all (\<lambda>b. printable (of_char b)) (map char_of js)"
    if "list_all printable js" for js
    using that by (induction js) simp_all
  from this [OF json_dumps_printable] show ?thesis
    by (simp add: submission_payload_def)
qed

end
